theory Spec2Isabelle
  imports Main "HOL-Library.Multiset"
begin

section \<open>The C library as del.c uses it\<close>

text \<open>
  A C string is modelled by the list of its bytes before the terminating NUL, so a
  \<^typ>\<open>string\<close> of this theory never holds the NUL byte. The program never calls
  \<^verbatim>\<open>setlocale\<close>, so the character classes are those of the "C" locale.
\<close>

definition tolower :: "char \<Rightarrow> char" where
  "tolower c =
     (if (65::nat) \<le> of_char c \<and> of_char c \<le> (90::nat)
      then char_of (of_char c + (32::nat)) else c)"

definition isspace :: "char \<Rightarrow> bool" where
  "isspace c = (of_char c = (32::nat) \<or> ((9::nat) \<le> of_char c \<and> of_char c \<le> (13::nat)))"

text \<open>
  \<^verbatim>\<open>strcmp\<close> and \<^verbatim>\<open>strcasecmp\<close> promise only the sign of their result; the model
  returns \<open>-1\<close>, \<open>0\<close> or \<open>1\<close>. Bytes compare as unsigned values; a string that ends
  first compares its NUL, the least byte.
\<close>

fun strcmp :: "string \<Rightarrow> string \<Rightarrow> int" where
  "strcmp [] [] = 0"
| "strcmp [] (y # ys) = - 1"
| "strcmp (x # xs) [] = 1"
| "strcmp (x # xs) (y # ys) =
     (if x = y then strcmp xs ys
      else if (of_char x :: nat) < of_char y then - 1 else 1)"

fun strcasecmp :: "string \<Rightarrow> string \<Rightarrow> int" where
  "strcasecmp [] [] = 0"
| "strcasecmp [] (y # ys) = - 1"
| "strcasecmp (x # xs) [] = 1"
| "strcasecmp (x # xs) (y # ys) =
     (if tolower x = tolower y then strcasecmp xs ys
      else if (of_char (tolower x) :: nat) < of_char (tolower y) then - 1 else 1)"

text \<open>\<^verbatim>\<open>strchr(s, c)\<close> is used only for its truth value.\<close>

definition strchr :: "string \<Rightarrow> char \<Rightarrow> bool" where
  "strchr s c = (c \<in> set s)"

text \<open>
  POSIX \<^verbatim>\<open>basename\<close> (the one \<^verbatim>\<open><libgen.h>\<close> declares): trailing slashes are
  dropped, then the part after the last slash is the result; a string of slashes gives
  \<^verbatim>\<open>"/"\<close> and the empty string gives \<^verbatim>\<open>"."\<close>.
\<close>

definition basename :: "string \<Rightarrow> string" where
  "basename p =
     (if p = [] then ''.''
      else let q = rev (dropWhile (\<lambda>c. c = CHR ''/'') (rev p))
           in if q = [] then ''/'' else rev (takeWhile (\<lambda>c. c \<noteq> CHR ''/'') (rev q)))"

subsection \<open>The three \<^verbatim>\<open>sscanf\<close> formats\<close>

text \<open>
  A white-space directive of a format skips any run of white space, also an empty one;
  an ordinary character must match the next input byte; \<^verbatim>\<open>%Ns\<close> skips white space and
  then stores the longest run of at most \<open>N\<close> bytes that are not white space, and fails
  when that run is empty; \<^verbatim>\<open>%n\<close> stores the number of bytes consumed so far.
\<close>

definition skip_space :: "string \<Rightarrow> string" where
  "skip_space s = dropWhile isspace s"

definition match_literal :: "string \<Rightarrow> string \<Rightarrow> string option" where
  "match_literal lit s =
     (if take (length lit) s = lit then Some (drop (length lit) s) else None)"

definition conv_s :: "nat \<Rightarrow> string \<Rightarrow> (string \<times> string) option" where
  "conv_s w s =
     (let s1 = skip_space s;
          tok = take w (takeWhile (\<lambda>c. \<not> isspace c) s1)
      in if tok = [] then None else Some (tok, drop (length tok) s1))"

text \<open>The prefix \<^verbatim>\<open>"KEY = "\<close> of a format: the key, white space, \<^verbatim>\<open>=\<close>, white space.\<close>

definition match_key :: "string \<Rightarrow> string \<Rightarrow> string option" where
  "match_key key s =
     (case match_literal key s of
        None \<Rightarrow> None
      | Some r \<Rightarrow>
          (case match_literal ''='' (skip_space r) of
             None \<Rightarrow> None
           | Some r' \<Rightarrow> Some (skip_space r')))"

text \<open>
  \<^verbatim>\<open>sscanf(line, "KEY = %5s", buf) > 0\<close>: \<open>Some\<close> of what is stored in \<open>buf\<close> when
  the conversion succeeds, \<open>None\<close> when the call returns \<open>0\<close> or \<open>EOF\<close>.
\<close>

definition sscanf_bool :: "string \<Rightarrow> string \<Rightarrow> string option" where
  "sscanf_bool key line =
     (case match_key key line of
        None \<Rightarrow> None
      | Some r \<Rightarrow> map_option fst (conv_s 5 r))"

text \<open>
  \<^verbatim>\<open>sscanf(s, "%4095s %n", command, &len) > 0\<close>: the token and the count of bytes
  consumed, trailing white space included.
\<close>

definition sscanf_word :: "string \<Rightarrow> (string \<times> nat) option" where
  "sscanf_word s =
     (case conv_s 4095 s of
        None \<Rightarrow> None
      | Some (tok, r) \<Rightarrow> Some (tok, length s - length (skip_space r)))"

text \<open>\<^verbatim>\<open>sscanf(line, "Exec = %4095s %n", command, &offset) > 0\<close>.\<close>

definition sscanf_exec :: "string \<Rightarrow> (string \<times> nat) option" where
  "sscanf_exec line =
     (case match_key ''Exec'' line of
        None \<Rightarrow> None
      | Some r \<Rightarrow>
          (case conv_s 4095 r of
             None \<Rightarrow> None
           | Some (tok, r') \<Rightarrow> Some (tok, length line - length (skip_space r'))))"

text \<open>
  \<^verbatim>\<open>getline\<close> returns the bytes up to and including the next newline, or the rest of
  the input when no newline is left. \<open>getlines\<close> is the list of the lines that
  successive calls return until the input is used up.
\<close>

fun getlines :: "string \<Rightarrow> string list" where
  "getlines [] = []"
| "getlines (c # cs) =
     (if c = CHR 0x0A then [c] # getlines cs
      else (case getlines cs of [] \<Rightarrow> [[c]] | l # ls \<Rightarrow> (c # l) # ls))"

section \<open>Program state and operating system\<close>

text \<open>
  What the program prints. \<^verbatim>\<open>perror\<close> and the \<^verbatim>\<open>verror\<close> macro append the text of
  \<^verbatim>\<open>errno\<close>; the model records the message before that suffix.
\<close>

datatype message = Stdout string | Stderr string

datatype errno = E0 | ENOENT | EBADF | EINVAL | ENAMETOOLONG | EOTHER

text \<open>
  The globals \<^verbatim>\<open>commands\<close> (with \<^verbatim>\<open>command_count\<close> its length), \<^verbatim>\<open>max_commands\<close> and
  \<^verbatim>\<open>malloc_failed\<close>. \<open>allocs\<close> lists the outcomes of the allocations still to come
  (\<open>True\<close>: the allocation succeeds); once the list is used up every allocation
  succeeds. \<open>printed\<close> is what was written to the standard streams, oldest first.
\<close>

record state =
  commands :: "string list"
  max_commands :: nat
  malloc_failed :: bool
  allocs :: "bool list"
  printed :: "message list"

text \<open>
  An open file: the bytes still to be read and how reading ends once they are used up,
  at end-of-file (\<open>None\<close>) or with a read error.
\<close>

record stream =
  buf :: string
  rd_err :: "errno option"

text \<open>
  The operating system as the program sees it: the value of \<^verbatim>\<open>getenv("PATH")\<close>, the
  answers of \<^verbatim>\<open>access(p, X_OK)\<close> and \<^verbatim>\<open>stat\<close> (\<open>None\<close> when \<^verbatim>\<open>stat\<close> fails, else
  whether \<^verbatim>\<open>S_ISREG\<close> holds), for every path the file that opening it for reading gives
  (or the \<^verbatim>\<open>errno\<close> of the failure), and for every directory the paths that
  \<^verbatim>\<open>nftw\<close> with \<^verbatim>\<open>FTW_MOUNT\<close> visits below it, in its order, with whether the walk itself
  succeeds.
\<close>

record os =
  PATH :: "string option"
  access_X_OK :: "string \<Rightarrow> bool"
  stat_S_ISREG :: "string \<Rightarrow> bool option"
  files :: "string \<Rightarrow> errno + stream"
  tree :: "string \<Rightarrow> string list \<times> bool"

definition say :: "message \<Rightarrow> state \<Rightarrow> state" where
  "say m s = s\<lparr>printed := printed s @ [m]\<rparr>"

definition alloc :: "state \<Rightarrow> bool \<times> state" where
  "alloc s = (case allocs s of [] \<Rightarrow> (True, s) | b # bs \<Rightarrow> (b, s\<lparr>allocs := bs\<rparr>))"

definition INCREMENTAL_ALLOCATION_SIZE :: nat where
  "INCREMENTAL_ALLOCATION_SIZE = 64"

text \<open>The value of \<^verbatim>\<open><limits.h>\<close> on Linux.\<close>

definition PATH_MAX :: nat where
  "PATH_MAX = 4096"

text \<open>
  \<^verbatim>\<open>fopen(p, "r")\<close>. The system opens no path of \<open>PATH_MAX\<close> bytes or more: the call
  fails with \<^verbatim>\<open>ENAMETOOLONG\<close>.
\<close>

definition fopen :: "os \<Rightarrow> string \<Rightarrow> errno + stream" where
  "fopen sys p = (if length p \<ge> PATH_MAX then Inl ENAMETOOLONG else files sys p)"

section \<open>The command list\<close>

fun contains_from :: "string list \<Rightarrow> string \<Rightarrow> bool" where
  "contains_from [] needle = False"
| "contains_from (c # cs) needle =
     (if strcasecmp c needle = 0 then True else contains_from cs needle)"

definition command_list_contains :: "state \<Rightarrow> string \<Rightarrow> bool" where
  "command_list_contains s needle = contains_from (commands s) needle"

definition store_command :: "string \<Rightarrow> state \<Rightarrow> int \<times> state" where
  "store_command command s =
     (case alloc s of
        (False, s1) \<Rightarrow>
          (1, (say (Stderr ''del: could not update command list'') s1)\<lparr>malloc_failed := True\<rparr>)
      | (True, s1) \<Rightarrow> (0, s1\<lparr>commands := commands s1 @ [command]\<rparr>))"

definition add_command_to_list :: "string \<Rightarrow> state \<Rightarrow> int \<times> state" where
  "add_command_to_list command s =
     (if length (commands s) \<ge> max_commands s then
        (case alloc s of
           (False, s1) \<Rightarrow>
             (1, (say (Stderr ''del: could not resize command list'') s1)\<lparr>malloc_failed := True\<rparr>)
         | (True, s1) \<Rightarrow>
             store_command command
               (s1\<lparr>max_commands := max_commands s1 + INCREMENTAL_ALLOCATION_SIZE\<rparr>))
      else store_command command s)"

section \<open>Resolving a command\<close>

definition can_execute :: "os \<Rightarrow> string \<Rightarrow> bool" where
  "can_execute sys command =
     (if access_X_OK sys command then
        (case stat_S_ISREG sys command of None \<Rightarrow> False | Some reg \<Rightarrow> reg)
      else False)"

text \<open>
  \<^verbatim>\<open>command_path\<close> returns the resolved path, or \<^verbatim>\<open>NULL\<close>; \<open>Name_Too_Long\<close> is the
  \<^verbatim>\<open>NULL\<close> returned with \<^verbatim>\<open>errno = ENAMETOOLONG\<close>. \<open>Buffer_Overrun\<close> is no return value:
  it stands for a store past the last byte of the static buffer \<^verbatim>\<open>path[PATH_MAX]\<close>, which
  is undefined behaviour in C. The model ends the call there; the callers are given a
  failure, as if \<^verbatim>\<open>NULL\<close> had been returned.
\<close>

datatype resolve_error = Not_Found | Name_Too_Long | Buffer_Overrun

text \<open>
  What the loop does at the end of a component: \<open>dest\<close> holds the bytes copied into
  \<^verbatim>\<open>path\<close> so far and \<open>n\<close> is \<^verbatim>\<open>src - src_mark\<close>. \<open>end_prefix\<close> is the buffer after the
  stores of \<^verbatim>\<open>"./"\<close> or \<^verbatim>\<open>'/'\<close>; \<open>try_candidate\<close> is the rest of the loop body up to the
  test of \<^verbatim>\<open>*src\<close>, \<open>Some\<close> of the result when the function returns there. The slash is
  stored at index \<open>length dest\<close>, past the buffer when that is \<open>PATH_MAX\<close> or more.
\<close>

definition end_prefix :: "string \<Rightarrow> nat \<Rightarrow> string" where
  "end_prefix dest n =
     (if n = 0 then dest @ ''./''
      else if last dest \<noteq> CHR ''/'' then dest @ ''/''
      else dest)"

definition try_candidate ::
    "os \<Rightarrow> string \<Rightarrow> string \<Rightarrow> nat \<Rightarrow> (resolve_error + string) option" where
  "try_candidate sys command dest n =
     (if n \<noteq> 0 \<and> last dest \<noteq> CHR ''/'' \<and> length dest \<ge> PATH_MAX
      then Some (Inl Buffer_Overrun)
      else let d = end_prefix dest n in
        if length d + length command \<ge> PATH_MAX then Some (Inl Name_Too_Long)
        else if can_execute sys (d @ command) then Some (Inr (d @ command))
        else None)"

text \<open>
  The \<^verbatim>\<open>while (1)\<close> loop, by recursion on the bytes of \<^verbatim>\<open>PATH\<close> still to be read
  (\<^verbatim>\<open>src\<close>). The copy \<^verbatim>\<open>*dest++ = *src++\<close> has no bound of its own: the byte is stored at
  index \<open>length dest\<close>.
\<close>

fun path_scan :: "os \<Rightarrow> string \<Rightarrow> string \<Rightarrow> nat \<Rightarrow> string \<Rightarrow> resolve_error + string" where
  "path_scan sys command dest n [] =
     (case try_candidate sys command dest n of
        Some r \<Rightarrow> r
      | None \<Rightarrow> Inl Not_Found)"
| "path_scan sys command dest n (c # src) =
     (if c \<noteq> CHR '':'' then
        (if length dest \<ge> PATH_MAX then Inl Buffer_Overrun
         else path_scan sys command (dest @ [c]) (Suc n) src)
      else
        (case try_candidate sys command dest n of
           Some r \<Rightarrow> r
         | None \<Rightarrow> path_scan sys command [] 0 src))"

definition command_path :: "os \<Rightarrow> string \<Rightarrow> resolve_error + string" where
  "command_path sys command =
     (if strchr command CHR ''/'' then
        (if can_execute sys command then Inr command else Inl Not_Found)
      else case PATH sys of
        None \<Rightarrow> Inl Not_Found
      | Some env_value \<Rightarrow> path_scan sys command [] 0 env_value)"

section \<open>Parsing one desktop entry\<close>

text \<open>
  The locals of \<^verbatim>\<open>parse_desktop_entry\<close> that live across lines. \<open>command_basename\<close> is
  \<open>None\<close> for the \<^verbatim>\<open>NULL\<close> it starts as. It is read only when \<open>command\<close> is not
  empty, and then it was computed from that very \<open>command\<close>.
\<close>

record entry =
  inside_desktop_entry :: bool
  command :: string
  command_basename :: "string option"

lemma conv_s_shorter:
  "conv_s w s = Some (tok, r) \<Longrightarrow> tok \<noteq> [] \<and> length r < length s"
proof -
  assume a: "conv_s w s = Some (tok, r)"
  let ?s1 = "skip_space s"
  from a have t: "tok = take w (takeWhile (\<lambda>c. \<not> isspace c) ?s1)" and ne: "tok \<noteq> []"
    and r: "r = drop (length tok) ?s1"
    by (auto simp: conv_s_def Let_def split: if_splits)
  have "length ?s1 \<le> length s"
    by (simp add: skip_space_def length_dropWhile_le)
  moreover from t ne have "0 < length ?s1" by auto
  moreover from ne have "0 < length tok" by simp
  moreover from r have "length r = length ?s1 - length tok" by simp
  ultimately have "length r < length s" by arith
  with ne show ?thesis by simp
qed

lemma sscanf_word_advances:
  "sscanf_word s = Some (tok, len) \<Longrightarrow> 0 < len \<and> len \<le> length s \<and> tok \<noteq> []"
proof -
  assume a: "sscanf_word s = Some (tok, len)"
  then obtain r where c: "conv_s 4095 s = Some (tok, r)"
    and l: "len = length s - length (skip_space r)"
    by (auto simp: sscanf_word_def split: option.splits)
  have "length (skip_space r) \<le> length r"
    by (simp add: skip_space_def length_dropWhile_le)
  with conv_s_shorter [OF c] l show ?thesis by auto
qed

text \<open>
  The inner \<^verbatim>\<open>while\<close> that runs when the first word of an \<^verbatim>\<open>Exec\<close> value is
  \<^verbatim>\<open>env\<close>: \<^verbatim>\<open>line + offset\<close> is scanned word by word.
\<close>

function env_words :: "string \<Rightarrow> nat \<Rightarrow> entry \<Rightarrow> entry" where
  "env_words line offset e =
     (case sscanf_word (drop offset line) of
        None \<Rightarrow> e
      | Some (tok, len) \<Rightarrow>
          if \<not> strchr (drop 1 tok) CHR ''='' \<and> take 1 tok \<noteq> ''-''
          then e\<lparr>command := tok, command_basename := Some (basename tok)\<rparr>
          else env_words line (offset + len) (e\<lparr>command := []\<rparr>))"
  by pat_completeness auto
termination
proof (relation "measure (\<lambda>(line, offset, e). length line - offset)")
  show "wf (measure (\<lambda>(line, offset, e). length line - offset))" by simp
next
  fix line :: string and offset :: nat and e :: entry and x2 tok len
  assume "sscanf_word (drop offset line) = Some x2" and "(tok, len) = x2"
  then have "sscanf_word (drop offset line) = Some (tok, len)" by simp
  from sscanf_word_advances [OF this] have "0 < len" and "len \<le> length line - offset"
    by simp_all
  then show "((line, offset + len, e\<lparr>command := []\<rparr>), line, offset, e)
      \<in> measure (\<lambda>(line, offset, e). length line - offset)"
    by simp
qed

declare env_words.simps [simp del]

text \<open>The body of the outer \<^verbatim>\<open>while\<close>, for one line; the first component says \<^verbatim>\<open>break\<close>.\<close>

definition parse_line :: "string \<Rightarrow> entry \<Rightarrow> bool \<times> entry" where
  "parse_line line e =
     (if \<not> inside_desktop_entry e then
        (False, e\<lparr>inside_desktop_entry := (strcasecmp (''[Desktop Entry]'' @ [CHR 0x0A]) line = 0)\<rparr>)
      else
        (case (case sscanf_bool ''NoDisplay'' line of
                 Some v \<Rightarrow> Some v
               | None \<Rightarrow> sscanf_bool ''Terminal'' line) of
           Some boolean_value_string \<Rightarrow>
             if strcasecmp ''true'' boolean_value_string = 0
             then (True, e\<lparr>command := []\<rparr>)
             else (False, e)
         | None \<Rightarrow>
             (case sscanf_exec line of
                None \<Rightarrow> (False, e)
              | Some (tok, offset) \<Rightarrow>
                  let e1 = e\<lparr>command := tok, command_basename := Some (basename tok)\<rparr>
                  in if strcmp (basename tok) ''env'' = 0
                     then (False, env_words line offset e1)
                     else (False, e1))))"

fun scan_lines :: "string list \<Rightarrow> entry \<Rightarrow> entry" where
  "scan_lines [] e = e"
| "scan_lines (line # rest) e =
     (case parse_line line e of
        (True, e') \<Rightarrow> e'
      | (False, e') \<Rightarrow> scan_lines rest e')"

definition entry0 :: entry where
  "entry0 = \<lparr>inside_desktop_entry = False, command = [], command_basename = None\<rparr>"

text \<open>The \<^verbatim>\<open>for\<close> loop that lower-cases the copy, with \<^verbatim>\<open>case_changed\<close>.\<close>

fun lowercase :: "string \<Rightarrow> bool \<Rightarrow> string \<times> bool" where
  "lowercase [] case_changed = ([], case_changed)"
| "lowercase (k # ks) case_changed =
     (if (65::nat) \<le> of_char k \<and> of_char k \<le> (90::nat)
      then (case lowercase ks True of (r, ch) \<Rightarrow> (char_of (of_char k + (32::nat)) # r, ch))
      else (case lowercase ks case_changed of (r, ch) \<Rightarrow> (k # r, ch)))"

definition found :: "string \<Rightarrow> string \<Rightarrow> message" where
  "found name fpath = Stdout (''+ '' @ name @ '' ('' @ fpath @ '')'')"

definition extension :: string where
  "extension = ''.desktop''"

text \<open>
  The end of \<^verbatim>\<open>parse_desktop_entry\<close>, from the \<^verbatim>\<open>strdup\<close> on: \<open>cb\<close> is
  \<^verbatim>\<open>command_basename\<close>.
\<close>

definition resolve_and_add :: "os \<Rightarrow> string \<Rightarrow> string \<Rightarrow> state \<Rightarrow> int \<times> state" where
  "resolve_and_add sys fpath cb s =
     (case alloc s of
        (False, s1) \<Rightarrow>
          (1, say (Stderr ''del: could not allocate memory for command name'') s1)
      | (True, s1) \<Rightarrow>
          (case lowercase cb False of
             (lowercase_basename, case_changed) \<Rightarrow>
               (let s2 =
                  (case command_path sys lowercase_basename of
                     Inr p \<Rightarrow>
                       snd (add_command_to_list lowercase_basename
                              (say (found lowercase_basename fpath) s1))
                   | Inl err \<Rightarrow>
                       (if case_changed then
                          (case command_path sys cb of
                             Inr p \<Rightarrow> snd (add_command_to_list cb (say (found cb fpath) s1))
                           | Inl err' \<Rightarrow> s1)
                        else s1))
                in ((if malloc_failed s2 then 1 else 0), s2))))"

definition parse_desktop_entry :: "os \<Rightarrow> string \<Rightarrow> state \<Rightarrow> int \<times> state" where
  "parse_desktop_entry sys fpath s =
     (if length fpath < length extension
         \<or> drop (length fpath - length extension) fpath \<noteq> extension
      then (0, s)
      else
        (case fopen sys fpath of
           Inl err \<Rightarrow> (0, s)
         | Inr file \<Rightarrow>
             (let e = scan_lines (getlines (buf file)) entry0 in
              (if command e = [] then (0, s)
               else
                 (case command_basename e of
                    None \<Rightarrow> (0, s)
                  | Some cb \<Rightarrow>
                      (if command_list_contains s cb then (0, s)
                       else resolve_and_add sys fpath cb s))))))"

section \<open>Loading a list of commands\<close>

text \<open>The \<^verbatim>\<open>while\<close> loop of \<^verbatim>\<open>load_commands_from_file\<close>; the result is \<^verbatim>\<open>failed\<close>.\<close>

fun load_lines :: "os \<Rightarrow> string list \<Rightarrow> state \<Rightarrow> int \<times> state" where
  "load_lines sys [] s = (0, s)"
| "load_lines sys (line # rest) s =
     (let entry = (if length line \<ge> 1 \<and> last line = CHR 0x0A then butlast line else line)
      in case command_path sys entry of
           Inr p \<Rightarrow>
             (case add_command_to_list entry s of
                (failed, s') \<Rightarrow> if failed \<noteq> 0 then (failed, s') else load_lines sys rest s')
         | Inl err \<Rightarrow> load_lines sys rest (say (Stdout (''- '' @ entry)) s))"

text \<open>
  The loop and the test of \<^verbatim>\<open>feof\<close> after it. The result is the return value and the
  \<^verbatim>\<open>errno\<close> the function leaves (\<open>E0\<close> is \<open>0\<close>).
\<close>

definition load_stream :: "os \<Rightarrow> stream \<Rightarrow> state \<Rightarrow> (int \<times> errno) \<times> state" where
  "load_stream sys file s =
     (case load_lines sys (getlines (buf file)) s of
        (failed, s') \<Rightarrow>
          if failed = 0 then
            (case rd_err file of
               None \<Rightarrow> ((0, E0), s')
             | Some saved_errno \<Rightarrow> ((1, saved_errno), s'))
          else ((failed, E0), s'))"

definition load_commands_from_file ::
    "os \<Rightarrow> string option \<Rightarrow> stream option \<Rightarrow> state \<Rightarrow> (int \<times> errno) \<times> state" where
  "load_commands_from_file sys path file s =
     (case (path, file) of
        (Some p, Some f) \<Rightarrow> ((1, EINVAL), s)
      | (None, None) \<Rightarrow> ((1, EINVAL), s)
      | (Some p, None) \<Rightarrow>
          (case fopen sys p of
             Inl err \<Rightarrow> ((1, err), s)
           | Inr f \<Rightarrow> load_stream sys f s)
      | (None, Some f) \<Rightarrow> load_stream sys f s)"

section \<open>Refreshing the command list\<close>

definition quoted :: "string \<Rightarrow> string" where
  "quoted x = [CHR 0x27] @ x @ [CHR 0x27]"

text \<open>
  \<^verbatim>\<open>nftw(dir, parse_desktop_entry, nftw_maxopen, FTW_MOUNT)\<close>: the callback runs on the
  visited paths in turn; a result other than \<open>0\<close> stops the walk and is what \<^verbatim>\<open>nftw\<close>
  returns; a walk that fails by itself returns \<open>-1\<close>. The bound on open descriptors
  changes no result and is left out.
\<close>

fun visit :: "os \<Rightarrow> string list \<Rightarrow> state \<Rightarrow> int \<times> state" where
  "visit sys [] s = (0, s)"
| "visit sys (fpath # rest) s =
     (case parse_desktop_entry sys fpath s of
        (r, s') \<Rightarrow> if r \<noteq> 0 then (r, s') else visit sys rest s')"

definition nftw :: "os \<Rightarrow> string \<Rightarrow> state \<Rightarrow> int \<times> state" where
  "nftw sys dir s =
     (case visit sys (fst (tree sys dir)) s of
        (r, s') \<Rightarrow> if r \<noteq> 0 then (r, s') else ((if snd (tree sys dir) then 0 else - 1), s'))"

text \<open>The \<^verbatim>\<open>for\<close> loop over \<^verbatim>\<open>dirs\<close>; \<open>Some 1\<close> is the \<^verbatim>\<open>return 1\<close> inside it.\<close>

fun walk_dirs :: "os \<Rightarrow> string list \<Rightarrow> state \<Rightarrow> int option \<times> state" where
  "walk_dirs sys [] s = (None, s)"
| "walk_dirs sys (dir # rest) s =
     (case nftw sys dir s of
        (r, s') \<Rightarrow>
          if r \<noteq> 0 then
            (Some 1,
             (if \<not> malloc_failed s'
              then say (Stderr (''del: unable to walk '' @ quoted dir)) s' else s'))
          else walk_dirs sys rest s')"

text \<open>
  Standard input as \<^verbatim>\<open>refresh_command_list\<close> tests it: a terminal; a descriptor for
  which \<^verbatim>\<open>isatty\<close> fails with \<^verbatim>\<open>EBADF\<close>; or anything else, which is read.
\<close>

datatype stdin = Stdin_tty | Stdin_EBADF | Stdin_file stream

text \<open>
  \<^verbatim>\<open>refresh_command_list\<close> up to the test of \<^verbatim>\<open>command_count\<close>: the two loads and the
  walks. \<open>Some r\<close> is an early \<^verbatim>\<open>return r\<close>.
\<close>

definition gather :: "os \<Rightarrow> stdin \<Rightarrow> string \<Rightarrow> string list \<Rightarrow> state \<Rightarrow> int option \<times> state" where
  "gather sys inp path dirs s =
     (case (case inp of
              Stdin_file f \<Rightarrow> load_commands_from_file sys None (Some f) s
            | Stdin_tty \<Rightarrow> ((0, E0), s)
            | Stdin_EBADF \<Rightarrow> ((0, E0), s)) of
        ((r1, e1), s1) \<Rightarrow>
          (if r1 \<noteq> 0 then
             (Some 1, say (Stderr ''del: could not load commands from stdin'') s1)
           else
             (case load_commands_from_file sys (Some path) None s1 of
                ((r2, e2), s2) \<Rightarrow>
                  (if r2 \<noteq> 0 \<and> e2 \<noteq> ENOENT then
                     (Some 1,
                      say (Stderr (''del: could not load commands from '' @ quoted path)) s2)
                   else if dirs \<noteq> [] then walk_dirs sys dirs s2
                   else
                     (case nftw sys ''/'' s2 of
                        (r, s3) \<Rightarrow>
                          (if r \<noteq> 0 then
                             (Some 1,
                              (if \<not> malloc_failed s3
                               then say (Stderr (''del: unable to walk '' @ quoted ''/'')) s3
                               else s3))
                           else (None, s3)))))))"

text \<open>
  How the library and system calls of the write phase turn out: the array as \<^verbatim>\<open>qsort\<close>
  leaves it (see \<open>qsort_post\<close>), the six characters \<^verbatim>\<open>mkstemp\<close> puts for
  \<^verbatim>\<open>XXXXXX\<close> (\<open>None\<close>: it fails), the six characters that stand in their place in the
  buffer after a call that failed (\<^verbatim>\<open>mkstemp\<close> writes into the template it is given, and
  a C library may leave there the last name it tried, or put \<^verbatim>\<open>XXXXXX\<close> back), whether
  \<^verbatim>\<open>fdopen\<close> succeeds, the index of the call of \<^verbatim>\<open>fprintf\<close> that fails (counted from
  \<open>0\<close>; \<open>None\<close>: none fails), and whether \<^verbatim>\<open>fflush\<close>, \<^verbatim>\<open>fsync\<close>, \<^verbatim>\<open>fclose\<close>,
  \<^verbatim>\<open>rename\<close> and \<^verbatim>\<open>unlink\<close> succeed.
\<close>

record outcomes =
  sorted_array :: "string list"
  mkstemp :: "string option"
  failed_template :: string
  fdopen_ok :: bool
  fprintf_fails :: "nat option"
  fflush_ok :: bool
  fsync_ok :: bool
  fclose_ok :: bool
  rename_ok :: bool
  unlink_ok :: bool

text \<open>
  What \<^verbatim>\<open>qsort\<close> with \<^verbatim>\<open>stringcomparator\<close> promises: the same entries, each one not
  after its successors. The order among entries that compare equal is left open.
\<close>

definition stringcomparator :: "string \<Rightarrow> string \<Rightarrow> int" where
  "stringcomparator a b = strcasecmp a b"

definition qsort_post :: "string list \<Rightarrow> string list \<Rightarrow> bool" where
  "qsort_post before after =
     (mset after = mset before \<and> sorted_wrt (\<lambda>a b. stringcomparator a b \<le> 0) after)"

text \<open>
  The \<^verbatim>\<open>for\<close> loop that writes the entries: \<open>prev\<close> is \<^verbatim>\<open>commands[i - 1]\<close> (\<open>None\<close>
  when \<^verbatim>\<open>i\<close> is \<open>0\<close>), \<open>k\<close> counts the calls of \<^verbatim>\<open>fprintf\<close> made. The result is the
  entries written and whether the loop ran to its end.
\<close>

fun write_entries :: "nat option \<Rightarrow> string option \<Rightarrow> string list \<Rightarrow> nat \<Rightarrow> string list \<times> bool" where
  "write_entries fails prev [] k = ([], True)"
| "write_entries fails prev (c # cs) k =
     (if (case prev of None \<Rightarrow> True | Some p \<Rightarrow> strcmp p c \<noteq> 0) then
        (if fails = Some k then ([], False)
         else (case write_entries fails (Some c) cs (Suc k) of
                 (written, ok) \<Rightarrow> (c # written, ok)))
      else write_entries fails (Some c) cs k)"

text \<open>A file that holds the given lines, each ended by a newline.\<close>

definition file_of :: "string list \<Rightarrow> errno + stream" where
  "file_of ls = Inr \<lparr>buf = concat (map (\<lambda>l. l @ [CHR 0x0A]) ls), rd_err = None\<rparr>"

definition put_file :: "string \<Rightarrow> string list \<Rightarrow> os \<Rightarrow> os" where
  "put_file name ls sys = sys\<lparr>files := (files sys)(name := file_of ls)\<rparr>"

definition unlink :: "string \<Rightarrow> os \<Rightarrow> os" where
  "unlink name sys = sys\<lparr>files := (files sys)(name := Inl ENOENT)\<rparr>"

definition rename :: "string \<Rightarrow> string \<Rightarrow> os \<Rightarrow> os" where
  "rename old new sys = sys\<lparr>files := (files sys)(new := files sys old, old := Inl ENOENT)\<rparr>"

text \<open>The code after the label \<^verbatim>\<open>error\<close> when the temporary file exists.\<close>

definition cleanup :: "outcomes \<Rightarrow> string \<Rightarrow> os \<Rightarrow> state \<Rightarrow> int \<times> os \<times> state" where
  "cleanup oc tempname sys s =
     (let s1 = say (Stderr (''del: '' @ tempname)) s in
      if unlink_ok oc then (1, unlink tempname sys, s1)
      else (1, sys,
            say (Stderr (''del: could not delete temporary file '' @ quoted tempname)) s1))"

text \<open>
  \<^verbatim>\<open>refresh_command_list\<close> from the \<^verbatim>\<open>strcpy\<close> into \<^verbatim>\<open>tempname\<close> to its end.
  \<^verbatim>\<open>tempname\<close> has \<open>PATH_MAX + 6\<close> bytes: \<^verbatim>\<open>strcpy\<close> and \<^verbatim>\<open>strcat\<close> store
  \<open>length path + 7\<close> bytes in it, past its end when the path has \<open>PATH_MAX\<close> bytes or
  more. That is undefined behaviour in C, and \<open>None\<close> in the model. The message for a
  failed \<^verbatim>\<open>mkstemp\<close> prints \<^verbatim>\<open>tempname\<close> as the call left it.
\<close>

definition persist :: "outcomes \<Rightarrow> string \<Rightarrow> os \<Rightarrow> state \<Rightarrow> (int \<times> os \<times> state) option" where
  "persist oc path sys s =
     (if length path \<ge> PATH_MAX then None
      else
        (case mkstemp oc of
           None \<Rightarrow>
             Some (1, sys, say (Stderr (''del: mkstemp: '' @ path @ failed_template oc)) s)
         | Some suffix \<Rightarrow>
             (let tempname = path @ suffix;
                  sys1 = put_file tempname [] sys
              in if \<not> fdopen_ok oc then Some (cleanup oc tempname sys1 s)
                 else
                   (let s1 = s\<lparr>commands := sorted_array oc\<rparr> in
                    (case write_entries (fprintf_fails oc) None (commands s1) 0 of
                       (written, False) \<Rightarrow>
                         Some (cleanup oc tempname (put_file tempname written sys1) s1)
                     | (written, True) \<Rightarrow>
                         (let sys2 = put_file tempname written sys1 in
                          if \<not> fflush_ok oc \<or> \<not> fsync_ok oc \<or> \<not> fclose_ok oc then
                            Some (cleanup oc tempname sys2
                              (say (Stderr (''del: unable to flush changes to ''
                                            @ quoted tempname)) s1))
                          else if \<not> rename_ok oc then
                            Some (cleanup oc tempname sys2
                              (say (Stderr (''del: unable to rename '' @ quoted tempname
                                            @ '' to '' @ quoted path)) s1))
                          else Some (0, rename tempname path sys2, s1)))))))"

definition refresh_command_list ::
    "outcomes \<Rightarrow> stdin \<Rightarrow> string \<Rightarrow> string list \<Rightarrow> os \<Rightarrow> state
       \<Rightarrow> (int \<times> os \<times> state) option" where
  "refresh_command_list oc inp path dirs sys s =
     (case gather sys inp path dirs s of
        (Some r, s') \<Rightarrow> Some (r, sys, s')
      | (None, s') \<Rightarrow>
          (if commands s' = [] then Some (1, sys, say (Stderr ''del: no commands found'') s')
           else persist oc path sys s'))"

section \<open>The menu\<close>

text \<open>
  What \<^verbatim>\<open>menu\<close> does that another process can see, in order: a message, a child forked
  for a selected command (the child closes its copy of the pipe and calls
  \<^verbatim>\<open>execlp(command, command, NULL)\<close>), a signal sent, a call of \<^verbatim>\<open>waitpid\<close> for a process,
  and the two messages that carry a number.
\<close>

datatype event =
    Say message
  | Fork_command string
  | Kill nat nat
  | Waitpid nat
  | Died_with_exit_status nat
  | Received_signal nat

text \<open>
  What one call of \<^verbatim>\<open>waitpid(menu_pid, &wait_status, 0)\<close> gives: \<open>-1\<close>, or a status for
  which \<^verbatim>\<open>WIFEXITED\<close> holds (with \<^verbatim>\<open>WEXITSTATUS\<close>), or \<^verbatim>\<open>WIFSIGNALED\<close> (with
  \<^verbatim>\<open>WTERMSIG\<close>), or neither.
\<close>

datatype wait_status = Wait_failed | Exited nat | Signaled nat | Neither

text \<open>
  How the calls of \<^verbatim>\<open>menu\<close> turn out: whether \<^verbatim>\<open>pipe\<close> succeeds, the process id that
  the first \<^verbatim>\<open>fork\<close> returns to the parent (\<open>None\<close>: it fails), whether \<^verbatim>\<open>close\<close> of the
  write end and \<^verbatim>\<open>fdopen\<close> of the read end succeed, what the selector writes to the
  pipe, the outcomes of the forks for the selections (\<open>True\<close>: the fork succeeds; once
  the list is used up every fork succeeds), whether \<^verbatim>\<open>fclose\<close> succeeds, and what the
  successive calls of \<^verbatim>\<open>waitpid\<close> return.
\<close>

record menu_calls =
  pipe_ok :: bool
  menu_fork :: "nat option"
  close_ok :: bool
  pipe_fdopen_ok :: bool
  menu_output :: stream
  forks :: "bool list"
  pipe_fclose_ok :: bool
  waits :: "wait_status list"

definition SIGHUP :: nat where
  "SIGHUP = 1"

text \<open>
  The loop that reads the selections, by recursion on the lines that \<^verbatim>\<open>getline\<close> returns;
  the result is \<^verbatim>\<open>failure\<close> and what happened.
\<close>

fun read_selections :: "string list \<Rightarrow> bool list \<Rightarrow> int \<times> event list" where
  "read_selections [] fk = (0, [])"
| "read_selections (line # rest) fk =
     (if length line \<ge> 1 \<and> last line = CHR 0x0A then
        (case fk of
           False # fk' \<Rightarrow> (1, [Say (Stderr ''del: could not fork to execute command'')])
         | True # fk' \<Rightarrow>
             (case read_selections rest fk' of
                (failure, ev) \<Rightarrow> (failure, Fork_command (butlast line) # ev))
         | [] \<Rightarrow>
             (case read_selections rest [] of
                (failure, ev) \<Rightarrow> (failure, Fork_command (butlast line) # ev)))
      else
        (case read_selections rest fk of
           (failure, ev) \<Rightarrow>
             (failure, Say (Stderr (''del: missing newline after '' @ quoted line)) # ev)))"

text \<open>
  The final \<^verbatim>\<open>while (1)\<close>. \<open>None\<close>: every call of \<^verbatim>\<open>waitpid\<close> listed returned a status
  that is neither an exit nor a death by signal, and the loop is still running.
\<close>

fun wait_loop :: "string \<Rightarrow> nat \<Rightarrow> nat \<Rightarrow> wait_status list \<Rightarrow> int \<Rightarrow> (int \<times> event list) option" where
  "wait_loop argv0 menu_pid menu_kill_signal [] failure = None"
| "wait_loop argv0 menu_pid menu_kill_signal (w # ws) failure =
     (case w of
        Wait_failed \<Rightarrow>
          Some ((if failure = 0 then 2 else failure),
                [Waitpid menu_pid, Say (Stderr (''del: error waiting on '' @ argv0))])
      | Exited status \<Rightarrow>
          (if failure = 0 \<and> status \<noteq> 0
           then Some (int status, [Waitpid menu_pid, Died_with_exit_status status])
           else Some (failure, [Waitpid menu_pid]))
      | Signaled signum \<Rightarrow>
          (if signum \<noteq> menu_kill_signal
           then Some ((if failure \<noteq> 0 then failure else 128 + int signum),
                      [Waitpid menu_pid, Received_signal signum])
           else Some (failure, [Waitpid menu_pid]))
      | Neither \<Rightarrow>
          map_option (\<lambda>(r, ev). (r, Waitpid menu_pid # ev))
            (wait_loop argv0 menu_pid menu_kill_signal ws failure))"

text \<open>
  The parent's code between the first \<^verbatim>\<open>fork\<close> and the test \<^verbatim>\<open>failure == 1\<close>:
  \<^verbatim>\<open>failure\<close> (which starts as \<open>1\<close>) and what happened.
\<close>

definition stream_selections :: "menu_calls \<Rightarrow> string \<Rightarrow> int \<times> event list" where
  "stream_selections mc argv0 =
     (if \<not> close_ok mc then
        (1, [Say (Stderr ''del: could not close unused write-end of pipe'')])
      else if \<not> pipe_fdopen_ok mc then
        (1, [Say (Stderr (''del: could not execute fdopen on '' @ argv0 @ '' pipe''))])
      else
        (case read_selections (getlines (buf (menu_output mc))) (forks mc) of
           (failure, ev) \<Rightarrow>
             (let (failure', ev') =
                (if failure = 0 then
                   (case rd_err (menu_output mc) of
                      None \<Rightarrow> (0, ev)
                    | Some e \<Rightarrow>
                        (1, ev @ [Say (Stderr (''del: could not read '' @ argv0 @ '' output''))]))
                 else (failure, ev))
              in (failure',
                  ev' @ (if pipe_fclose_ok mc then []
                         else [Say (Stderr (''del: unable to close '' @ argv0 @ '' output file''))]))))
     )"

definition menu :: "menu_calls \<Rightarrow> string \<Rightarrow> (int \<times> event list) option" where
  "menu mc argv0 =
     (if \<not> pipe_ok mc then
        Some (1, [Say (Stderr ''del: could not create pipes for subprocess communication'')])
      else
        (case menu_fork mc of
           None \<Rightarrow> Some (1, [Say (Stderr (''del: could not fork to launch '' @ argv0))])
         | Some menu_pid \<Rightarrow>
             (case stream_selections mc argv0 of
                (failure, ev) \<Rightarrow>
                  (let (menu_kill_signal, ev1) =
                     (if failure = 1 then (SIGHUP, [Kill menu_pid SIGHUP]) else (0, []))
                   in map_option (\<lambda>(r, ev2). (r, ev @ ev1 @ ev2))
                        (wait_loop argv0 menu_pid menu_kill_signal (waits mc) failure)))))"

section \<open>Notions used to state the properties\<close>

subsection \<open>The search of section 4.1, in the words of the specification\<close>

text \<open>
  The three definitions below follow the specification, not the source: the value of the
  search-path variable split at every colon, a component joined with the token (an empty
  component is the current directory), and the scan of the components in order, which
  fails with the length error at the first candidate of \<open>PATH_MAX\<close> bytes or more.
\<close>

fun spec_components :: "string \<Rightarrow> string list" where
  "spec_components [] = [[]]"
| "spec_components (c # cs) =
     (if c = CHR '':'' then [] # spec_components cs
      else (case spec_components cs of [] \<Rightarrow> [[c]] | d # ds \<Rightarrow> (c # d) # ds))"

definition spec_join :: "string \<Rightarrow> string \<Rightarrow> string" where
  "spec_join dir tok =
     (if dir = [] then ''./'' @ tok
      else if last dir = CHR ''/'' then dir @ tok
      else dir @ ''/'' @ tok)"

fun spec_search :: "os \<Rightarrow> string \<Rightarrow> string list \<Rightarrow> resolve_error + string" where
  "spec_search sys tok [] = Inl Not_Found"
| "spec_search sys tok (d # ds) =
     (if length (spec_join d tok) \<ge> PATH_MAX then Inl Name_Too_Long
      else if can_execute sys (spec_join d tok) then Inr (spec_join d tok)
      else spec_search sys tok ds)"

text \<open>
  What the loop of the source computes, component by component: a component fits when it
  and the slash that follows it are at most \<open>PATH_MAX\<close> bytes, the size of the buffer they
  are copied into; the scan ends in a buffer overrun at the first component that does not
  fit.
\<close>

definition fits :: "string \<Rightarrow> bool" where
  "fits dir = (length (spec_join dir []) \<le> PATH_MAX)"

fun component_scan :: "os \<Rightarrow> string \<Rightarrow> string list \<Rightarrow> resolve_error + string" where
  "component_scan sys tok [] = Inl Not_Found"
| "component_scan sys tok (d # ds) =
     (if \<not> fits d then Inl Buffer_Overrun
      else if length (spec_join d tok) \<ge> PATH_MAX then Inl Name_Too_Long
      else if can_execute sys (spec_join d tok) then Inr (spec_join d tok)
      else component_scan sys tok ds)"

subsection \<open>Lines and entries\<close>



text \<open>
  The invariant of section 3 of the specification: no entry of the list equals a later
  one when compared with \<^verbatim>\<open>strcasecmp\<close>.
\<close>

fun ci_distinct :: "string list \<Rightarrow> bool" where
  "ci_distinct [] = True"
| "ci_distinct (c # cs) = (list_all (\<lambda>x. strcasecmp c x \<noteq> 0) cs \<and> ci_distinct cs)"

text \<open>
  A list without two spellings of one name: entries that \<^verbatim>\<open>strcasecmp\<close> finds equal are
  identical. An entry may be there more than once.
\<close>

definition no_case_variants :: "string list \<Rightarrow> bool" where
  "no_case_variants cs =
     list_all (\<lambda>a. list_all (\<lambda>b. strcasecmp a b = 0 \<longrightarrow> a = b) cs) cs"

subsection \<open>The write phase\<close>

text \<open>
  Whether every step of the write phase after \<^verbatim>\<open>mkstemp\<close> succeeds, and the message that
  names the step when the flush (\<^verbatim>\<open>fflush\<close>, \<^verbatim>\<open>fsync\<close>, \<^verbatim>\<open>fclose\<close>) or the rename is
  the first to fail; a failure of \<^verbatim>\<open>fdopen\<close> or of a write has no message of its own.
\<close>

definition steps_ok :: "outcomes \<Rightarrow> bool" where
  "steps_ok oc =
     (fdopen_ok oc \<and> snd (write_entries (fprintf_fails oc) None (sorted_array oc) 0)
      \<and> fflush_ok oc \<and> fsync_ok oc \<and> fclose_ok oc \<and> rename_ok oc)"

definition step_report :: "outcomes \<Rightarrow> string \<Rightarrow> string \<Rightarrow> message list" where
  "step_report oc tempname path =
     (if \<not> fdopen_ok oc then []
      else if \<not> snd (write_entries (fprintf_fails oc) None (sorted_array oc) 0) then []
      else if \<not> fflush_ok oc \<or> \<not> fsync_ok oc \<or> \<not> fclose_ok oc
        then [Stderr (''del: unable to flush changes to '' @ quoted tempname)]
      else [Stderr (''del: unable to rename '' @ quoted tempname @ '' to '' @ quoted path)])"

subsection \<open>The menu\<close>


text \<open>
  A fatal error of \<^verbatim>\<open>menu\<close> during setup or while the selections are read: \<^verbatim>\<open>pipe\<close>, the
  first \<^verbatim>\<open>fork\<close>, \<^verbatim>\<open>close\<close> or \<^verbatim>\<open>fdopen\<close> fails, the fork for a selected command fails,
  or reading the selector's output ends with an error.
\<close>

fun fork_fails :: "string list \<Rightarrow> bool list \<Rightarrow> bool" where
  "fork_fails [] fk = False"
| "fork_fails (line # rest) fk =
     (if length line \<ge> 1 \<and> last line = CHR 0x0A then
        (case fk of
           [] \<Rightarrow> fork_fails rest []
         | True # fk' \<Rightarrow> fork_fails rest fk'
         | False # fk' \<Rightarrow> True)
      else fork_fails rest fk)"

definition fatal_error :: "menu_calls \<Rightarrow> bool" where
  "fatal_error mc =
     (\<not> pipe_ok mc \<or> menu_fork mc = None \<or> \<not> close_ok mc \<or> \<not> pipe_fdopen_ok mc
      \<or> fork_fails (getlines (buf (menu_output mc))) (forks mc)
      \<or> rd_err (menu_output mc) \<noteq> None)"

text \<open>
  The result as section 4.6 of the specification reconciles it, from whether a fatal error
  occurred and from how the selector ended. No signal is sent unless a fatal error
  occurred, so without one every signal differs from the one sent. The specification
  gives 0 in every case it does not name.
\<close>

definition spec_reconcile :: "bool \<Rightarrow> wait_status \<Rightarrow> int" where
  "spec_reconcile fatal w =
     (if fatal then 1
      else (case w of
              Exited status \<Rightarrow> int status
            | Signaled signum \<Rightarrow> 128 + int signum
            | Wait_failed \<Rightarrow> 0
            | Neither \<Rightarrow> 0))"

text \<open>The same with the result 2 when \<^verbatim>\<open>waitpid\<close> fails.\<close>

definition reconcile :: "bool \<Rightarrow> wait_status \<Rightarrow> int" where
  "reconcile fatal w =
     (if fatal then 1
      else (case w of
              Exited status \<Rightarrow> int status
            | Signaled signum \<Rightarrow> 128 + int signum
            | Wait_failed \<Rightarrow> 2
            | Neither \<Rightarrow> 0))"

section \<open>Concrete runs\<close>

text \<open>The globals as the program starts with them.\<close>

definition initial_state :: state where
  "initial_state =
     \<lparr>commands = [], max_commands = 0, malloc_failed = False, allocs = [], printed = []\<rparr>"

text \<open>
  Command lists: one entry; a name that is there twice; a name that is there twice with
  another spelling of it in between.
\<close>

definition one_command :: state where
  "one_command = initial_state\<lparr>commands := [''foo'']\<rparr>"

definition repeated_name :: state where
  "repeated_name = initial_state\<lparr>commands := [''gimp'', ''firefox'', ''gimp'']\<rparr>"

definition variant_between :: state where
  "variant_between = initial_state\<lparr>commands := [''foo'', ''Foo'', ''foo'']\<rparr>"

text \<open>
  Systems: one with no file at all; one where every path is an executable regular file
  (so that \<^verbatim>\<open>foo\<close> and \<^verbatim>\<open>Foo\<close> both resolve); one where, besides, every path opens as a
  file of the given content; one where the destination holds an earlier list.
\<close>

definition empty_os :: os where
  "empty_os =
     \<lparr>PATH = Some ''/usr/bin'', access_X_OK = (\<lambda>p. False), stat_S_ISREG = (\<lambda>p. None),
      files = (\<lambda>p. Inl ENOENT), tree = (\<lambda>d. ([], True))\<rparr>"

definition path_os :: "string \<Rightarrow> os" where
  "path_os v =
     \<lparr>PATH = Some v, access_X_OK = (\<lambda>p. True), stat_S_ISREG = (\<lambda>p. Some True),
      files = (\<lambda>p. Inl ENOENT), tree = (\<lambda>d. ([], True))\<rparr>"

definition case_variants :: os where
  "case_variants = path_os ''/usr/bin''"

definition desktop_os :: "string \<Rightarrow> os" where
  "desktop_os content =
     \<lparr>PATH = Some ''/usr/bin'', access_X_OK = (\<lambda>p. True), stat_S_ISREG = (\<lambda>p. Some True),
      files = (\<lambda>p. Inr \<lparr>buf = content, rd_err = None\<rparr>), tree = (\<lambda>d. ([], True))\<rparr>"

definition old_list :: os where
  "old_list =
     empty_os\<lparr>files := (\<lambda>p. if p = ''/home/u/.del'' then file_of [''old''] else Inl ENOENT)\<rparr>"

text \<open>
  Write phases: every call succeeds and \<^verbatim>\<open>qsort\<close> leaves the given array; the first
  write fails; \<^verbatim>\<open>mkstemp\<close> fails and leaves in the buffer the last name it tried.
\<close>

definition all_ok :: "string list \<Rightarrow> outcomes" where
  "all_ok arr =
     \<lparr>sorted_array = arr, mkstemp = Some ''a1B2c3'', failed_template = ''XXXXXX'',
      fdopen_ok = True, fprintf_fails = None, fflush_ok = True, fsync_ok = True,
      fclose_ok = True, rename_ok = True, unlink_ok = True\<rparr>"

definition disk_full :: outcomes where
  "disk_full = (all_ok [''foo''])\<lparr>fprintf_fails := Some 0\<rparr>"

definition no_tempfile :: outcomes where
  "no_tempfile = (all_ok [''foo''])\<lparr>mkstemp := None, failed_template := ''XIFPTX''\<rparr>"


definition scenario_4 :: menu_calls where
  "scenario_4 =
     \<lparr>pipe_ok = True, menu_fork = Some 4242, close_ok = True, pipe_fdopen_ok = True,
      menu_output = \<lparr>buf = ''firefox\<newline>gimp\<newline>xterm\<newline>'', rd_err = None\<rparr>,
      forks = [True, False], pipe_fclose_ok = True, waits = [Signaled SIGHUP]\<rparr>"

definition wait_fails :: menu_calls where
  "wait_fails =
     \<lparr>pipe_ok = True, menu_fork = Some 4242, close_ok = True, pipe_fdopen_ok = True,
      menu_output = \<lparr>buf = ''firefox\<newline>'', rd_err = None\<rparr>,
      forks = [], pipe_fclose_ok = True, waits = [Wait_failed]\<rparr>"

section \<open>An empty command list is an error\<close>

text \<open>
  Claim C8. When the two loads and the walks of \<^verbatim>\<open>refresh_command_list\<close> are through
  (\<open>gather\<close> returns no early result) and the command list is empty, the refresh prints
  "del: no commands found" on standard error and returns 1, whatever the calls of the
  write phase would have given: the system it leaves is the one it found, so no temporary
  file was created and the destination was not touched.
\<close>

theorem refresh_no_commands_found:
  assumes "gather sys inp path dirs s = (None, s')" and "commands s' = []"
  shows "refresh_command_list oc inp path dirs sys s
           = Some (1, sys, say (Stderr ''del: no commands found'') s')"
  using assms by (simp add: refresh_command_list_def)

text \<open>No descriptor, no earlier list file, standard input a terminal.\<close>

theorem refresh_no_commands_found_witness:
  "refresh_command_list (all_ok []) Stdin_tty ''/home/u/.del'' [] empty_os initial_state
     = Some (1, empty_os, say (Stderr ''del: no commands found'') initial_state)"
proof -
  have g: "gather empty_os Stdin_tty ''/home/u/.del'' [] initial_state = (None, initial_state)"
    by code_simp
  have c: "commands initial_state = []"
    by (simp add: initial_state_def)
  from refresh_no_commands_found [OF g c] show ?thesis .
qed

section \<open>Resolving a command: the loop against the specification\<close>

lemma spec_components_nonempty: "spec_components v \<noteq> []"
  by (induction v) (auto split: list.splits)

lemma spec_components_colon:
  "CHR '':'' \<notin> set a \<Longrightarrow> spec_components (a @ CHR '':'' # b) = a # spec_components b"
  by (induction a) auto

lemma end_prefix_join: "end_prefix dest (length dest) @ tok = spec_join dest tok"
  by (simp add: end_prefix_def spec_join_def)

lemma fits_iff:
  "length dest \<le> PATH_MAX \<Longrightarrow>
   fits dest \<longleftrightarrow> \<not> (length dest \<noteq> 0 \<and> last dest \<noteq> CHR ''/'' \<and> length dest \<ge> PATH_MAX)"
  by (auto simp: fits_def spec_join_def PATH_MAX_def)

lemma not_fits_longer: "length dest \<ge> PATH_MAX \<Longrightarrow> \<not> fits (dest @ c # d)"
  by (auto simp: fits_def spec_join_def)

text \<open>The end of a component in the loop is one step of the scan of the components.\<close>

lemma try_candidate_component:
  assumes "length dest \<le> PATH_MAX"
  shows "(case try_candidate sys tok dest (length dest) of Some r \<Rightarrow> r | None \<Rightarrow> rest)
           = (if \<not> fits dest then Inl Buffer_Overrun
              else if length (spec_join dest tok) \<ge> PATH_MAX then Inl Name_Too_Long
              else if can_execute sys (spec_join dest tok) then Inr (spec_join dest tok)
              else rest)"
proof (cases "fits dest")
  case False
  with fits_iff [OF assms] show ?thesis by (simp add: try_candidate_def)
next
  case True
  with fits_iff [OF assms]
  have "\<not> (length dest \<noteq> 0 \<and> last dest \<noteq> CHR ''/'' \<and> length dest \<ge> PATH_MAX)" by simp
  with True end_prefix_join [of dest tok] show ?thesis
    by (auto simp add: try_candidate_def Let_def simp flip: length_append)
qed

lemma path_scan_components:
  "spec_components src = d # ds \<Longrightarrow> length dest \<le> PATH_MAX \<Longrightarrow>
   path_scan sys tok dest (length dest) src = component_scan sys tok ((dest @ d) # ds)"
proof (induction src arbitrary: dest d ds)
  case Nil
  then have "d = []" and "ds = []" by simp_all
  with try_candidate_component [where rest = "Inl Not_Found" and sys = sys and tok = tok,
      OF Nil.prems(2)]
  show ?case by simp
next
  case (Cons c src)
  obtain d' ds' where sc: "spec_components src = d' # ds'"
    using spec_components_nonempty [of src] by (cases "spec_components src") auto
  show ?case
  proof (cases "c = CHR '':''")
    case True
    with Cons.prems(1) sc have d: "d = []" and ds: "ds = d' # ds'" by simp_all
    have rest: "path_scan sys tok [] 0 src = component_scan sys tok (d' # ds')"
      using Cons.IH [OF sc, of "[]"] by simp
    from try_candidate_component [where rest = "path_scan sys tok [] 0 src" and sys = sys
        and tok = tok, OF Cons.prems(2)]
    show ?thesis using True d ds rest by simp
  next
    case False
    with Cons.prems(1) sc have d: "d = c # d'" and ds: "ds = ds'" by simp_all
    show ?thesis
    proof (cases "length dest \<ge> PATH_MAX")
      case True
      with False d not_fits_longer [of dest c d'] show ?thesis by simp
    next
      case short: False
      then have "length (dest @ [c]) \<le> PATH_MAX" by simp
      from Cons.IH [OF sc this]
      have "path_scan sys tok (dest @ [c]) (length (dest @ [c])) src
              = component_scan sys tok (((dest @ [c]) @ d') # ds')" .
      with False short d ds show ?thesis by simp
    qed
  qed
qed

lemma can_execute_PATH: "can_execute (sys\<lparr>PATH := v\<rparr>) p = can_execute sys p"
  by (simp add: can_execute_def)

lemma command_path_eq:
  "command_path sys tok =
     (if CHR ''/'' \<in> set tok then (if can_execute sys tok then Inr tok else Inl Not_Found)
      else (case PATH sys of
              None \<Rightarrow> Inl Not_Found
            | Some v \<Rightarrow> component_scan sys tok (spec_components v)))"
proof (cases "PATH sys")
  case None
  then show ?thesis by (simp add: command_path_def strchr_def)
next
  case (Some v)
  obtain d ds where sc: "spec_components v = d # ds"
    using spec_components_nonempty [of v] by (cases "spec_components v") auto
  from path_scan_components [OF sc, of "[]" sys tok] sc Some
  show ?thesis by (simp add: command_path_def strchr_def)
qed

lemma component_scan_search:
  "\<forall>d \<in> set ds. fits d \<Longrightarrow> component_scan sys tok ds = spec_search sys tok ds"
  by (induction ds) auto

lemma component_scan_skip:
  "\<forall>p \<in> set pre. fits p \<and> length (spec_join p tok) < PATH_MAX
                    \<and> \<not> can_execute sys (spec_join p tok) \<Longrightarrow>
   component_scan sys tok (pre @ ds) = component_scan sys tok ds"
  by (induction pre) auto

text \<open>
  Claim C4. A token that contains a slash is tested directly for being an executable
  regular file, and the result does not depend on the search-path variable. Any other
  token fails when the variable is unset. Otherwise the value is split at the colons into
  components in order, an empty component stands for the current directory, and when every
  component before \<open>d\<close> fits the buffer and gave a candidate that fits and is not
  executable, the component \<open>d\<close> decides: if \<open>d\<close> fits the buffer, a candidate of
  \<open>PATH_MAX\<close> bytes or more fails the whole resolution with the length error, whatever the
  later components hold, an executable candidate is returned, and else the scan goes on
  with the components after \<open>d\<close>; so when all components fit the buffer, the loop computes
  the search of the specification. But a component that does not fit the buffer is copied
  past its end before the length is tested: the claim's length error is not what the
  source does there.
\<close>

theorem command_path_search:
  "(CHR ''/'' \<in> set tok
      \<longrightarrow> command_path sys tok = (if can_execute sys tok then Inr tok else Inl Not_Found)
          \<and> command_path (sys\<lparr>PATH := v'\<rparr>) tok = command_path sys tok)
   \<and> (CHR ''/'' \<notin> set tok \<and> PATH sys = None \<longrightarrow> command_path sys tok = Inl Not_Found)
   \<and> (CHR ''/'' \<notin> set tok \<and> PATH sys = Some v \<and> (\<forall>c \<in> set (spec_components v). fits c)
      \<longrightarrow> command_path sys tok = spec_search sys tok (spec_components v))
   \<and> (CHR ''/'' \<notin> set tok \<and> PATH sys = Some v \<and> spec_components v = pre @ d # post
        \<and> (\<forall>p \<in> set pre. fits p \<and> length (spec_join p tok) < PATH_MAX
                            \<and> \<not> can_execute sys (spec_join p tok))
      \<longrightarrow> command_path sys tok =
            (if \<not> fits d then Inl Buffer_Overrun
             else if length (spec_join d tok) \<ge> PATH_MAX then Inl Name_Too_Long
             else if can_execute sys (spec_join d tok) then Inr (spec_join d tok)
             else component_scan sys tok post))"
proof (intro conjI impI)
  assume "CHR ''/'' \<in> set tok"
  then show "command_path sys tok = (if can_execute sys tok then Inr tok else Inl Not_Found)"
    and "command_path (sys\<lparr>PATH := v'\<rparr>) tok = command_path sys tok"
    by (simp_all add: command_path_def strchr_def can_execute_PATH)
next
  assume "CHR ''/'' \<notin> set tok \<and> PATH sys = None"
  then show "command_path sys tok = Inl Not_Found"
    by (simp add: command_path_eq)
next
  assume "CHR ''/'' \<notin> set tok \<and> PATH sys = Some v \<and> (\<forall>c \<in> set (spec_components v). fits c)"
  then show "command_path sys tok = spec_search sys tok (spec_components v)"
    by (simp add: command_path_eq component_scan_search)
next
  assume a: "CHR ''/'' \<notin> set tok \<and> PATH sys = Some v \<and> spec_components v = pre @ d # post
        \<and> (\<forall>p \<in> set pre. fits p \<and> length (spec_join p tok) < PATH_MAX
                            \<and> \<not> can_execute sys (spec_join p tok))"
  then have "component_scan sys tok (pre @ d # post) = component_scan sys tok (d # post)"
    by (intro component_scan_skip) simp
  with a show "command_path sys tok =
            (if \<not> fits d then Inl Buffer_Overrun
             else if length (spec_join d tok) \<ge> PATH_MAX then Inl Name_Too_Long
             else if can_execute sys (spec_join d tok) then Inr (spec_join d tok)
             else component_scan sys tok post)"
    by (simp add: command_path_eq)
qed

text \<open>
  The search path \<^verbatim>\<open>":/usr/bin"\<close> tries the current directory first; \<^verbatim>\<open>"./foo"\<close> resolves
  the same with the variable unset; a first component of 4090 bytes gives, with the token
  \<^verbatim>\<open>foobar\<close>, a candidate of 4097 bytes and fails the resolution with the length error
  although \<^verbatim>\<open>/usr/bin/foobar\<close> is executable; a first component of 4096 bytes overruns the
  buffer.
\<close>

theorem command_path_search_witness:
  "command_path (path_os '':/usr/bin'') ''foo'' = Inr ''./foo''
   \<and> command_path ((path_os '':/usr/bin'')\<lparr>PATH := None\<rparr>) ''./foo''
       = command_path (path_os '':/usr/bin'') ''./foo''
   \<and> command_path ((path_os '':/usr/bin'')\<lparr>PATH := None\<rparr>) ''foo'' = Inl Not_Found
   \<and> command_path (path_os (replicate 4090 CHR ''x'' @ '':/usr/bin'')) ''foobar''
       = Inl Name_Too_Long
   \<and> command_path (path_os (replicate 4096 CHR ''x'' @ '':/usr/bin'')) ''foo''
       = Inl Buffer_Overrun"
proof (intro conjI)
  let ?sys = "path_os '':/usr/bin''"
  have t: "CHR ''/'' \<notin> set ''foo''" by simp
  have p: "PATH ?sys = Some '':/usr/bin''" by (simp add: path_os_def)
  have c: "spec_components '':/usr/bin'' = [[], ''/usr/bin'']" by simp
  have f: "\<forall>c \<in> set (spec_components '':/usr/bin''). fits c"
    unfolding c by (simp add: fits_def spec_join_def PATH_MAX_def)
  have x: "can_execute ?sys ''./foo''"
    by (simp add: can_execute_def path_os_def)
  from command_path_search [of "''foo''" ?sys _ "'':/usr/bin''"] t p f
  have "command_path ?sys ''foo'' = spec_search ?sys ''foo'' (spec_components '':/usr/bin'')"
    by blast
  then show "command_path ?sys ''foo'' = Inr ''./foo''"
    unfolding c using x by (simp add: spec_join_def PATH_MAX_def)
next
  let ?sys = "path_os '':/usr/bin''"
  have "CHR ''/'' \<in> set ''./foo''" by simp
  with command_path_search [of "''./foo''" ?sys None]
  show "command_path (?sys\<lparr>PATH := None\<rparr>) ''./foo'' = command_path ?sys ''./foo''"
    by blast
next
  let ?sys = "(path_os '':/usr/bin'')\<lparr>PATH := None\<rparr>"
  have "CHR ''/'' \<notin> set ''foo'' \<and> PATH ?sys = None" by simp
  with command_path_search [of "''foo''" ?sys]
  show "command_path ?sys ''foo'' = Inl Not_Found"
    by blast
next
  let ?long = "replicate 4090 CHR ''x''"
  let ?v = "?long @ '':/usr/bin''"
  let ?sys = "path_os ?v"
  have t: "CHR ''/'' \<notin> set ''foobar''" by simp
  have p: "PATH ?sys = Some ?v" by (simp add: path_os_def)
  have "CHR '':'' \<notin> set ?long" by simp
  from spec_components_colon [OF this, of "''/usr/bin''"]
  have c: "spec_components ?v = [] @ ?long # [''/usr/bin'']" by simp
  have e: "\<forall>p \<in> set []. fits p \<and> length (spec_join p ''foobar'') < PATH_MAX
                           \<and> \<not> can_execute ?sys (spec_join p ''foobar'')" by simp
  have f: "fits ?long"
    by (simp add: fits_def spec_join_def PATH_MAX_def)
  have l: "length (spec_join ?long ''foobar'') \<ge> PATH_MAX"
    by (simp add: spec_join_def PATH_MAX_def)
  from command_path_search [of "''foobar''" ?sys _ ?v "[]" ?long "[''/usr/bin'']"] t p c e f l
  show "command_path ?sys ''foobar'' = Inl Name_Too_Long"
    by simp
next
  let ?long = "replicate 4096 CHR ''x''"
  let ?v = "?long @ '':/usr/bin''"
  let ?sys = "path_os ?v"
  have t: "CHR ''/'' \<notin> set ''foo''" by simp
  have p: "PATH ?sys = Some ?v" by (simp add: path_os_def)
  have "CHR '':'' \<notin> set ?long" by simp
  from spec_components_colon [OF this, of "''/usr/bin''"]
  have c: "spec_components ?v = [] @ ?long # [''/usr/bin'']" by simp
  have e: "\<forall>p \<in> set []. fits p \<and> length (spec_join p ''foo'') < PATH_MAX
                           \<and> \<not> can_execute ?sys (spec_join p ''foo'')" by simp
  have f: "\<not> fits ?long"
    by (simp add: fits_def spec_join_def PATH_MAX_def)
  from command_path_search [of "''foo''" ?sys _ ?v "[]" ?long "[''/usr/bin'']"] t p c e f
  show "command_path ?sys ''foo'' = Inl Buffer_Overrun"
    by simp
qed

section \<open>Desktop entries that must not be listed\<close>

lemma strcasecmp_0_iff: "strcasecmp a b = 0 \<longleftrightarrow> map tolower a = map tolower b"
  by (induction a b rule: strcasecmp.induct) auto

lemma isspace_tolower: "isspace c \<Longrightarrow> tolower c = c"
  by (auto simp: isspace_def tolower_def)

lemma tolower_true: "map tolower ''true'' = ''true''"
  by code_simp

lemma not_isspace_true: "c \<in> set ''true'' \<Longrightarrow> \<not> isspace c"
  by (auto simp: isspace_def)

lemma true_value:
  assumes "strcasecmp ''true'' v = 0"
  shows "length v = 4" and "list_all (\<lambda>c. \<not> isspace c) v"
proof -
  from assms have m: "map tolower v = ''true''"
    by (simp only: strcasecmp_0_iff tolower_true)
  then have "length (map tolower v) = 4" by simp
  then show "length v = 4" by simp
  show "list_all (\<lambda>c. \<not> isspace c) v"
    unfolding list_all_iff
  proof
    fix c assume c: "c \<in> set v"
    show "\<not> isspace c"
    proof
      assume s: "isspace c"
      from c have "tolower c \<in> set (map tolower v)" by simp
      with m s have "c \<in> set ''true''" by (simp only: isspace_tolower)
      with s show False using not_isspace_true by blast
    qed
  qed
qed

lemma skip_space_run:
  "list_all isspace ws \<Longrightarrow> skip_space (ws @ r) = skip_space r"
  by (induction ws) (auto simp: skip_space_def)

lemma skip_space_stop: "\<not> isspace c \<Longrightarrow> skip_space (c # r) = c # r"
  by (simp add: skip_space_def)

lemma takeWhile_word:
  "list_all (\<lambda>c. \<not> isspace c) v \<Longrightarrow> rest = [] \<or> isspace (hd rest) \<Longrightarrow>
   takeWhile (\<lambda>c. \<not> isspace c) (v @ rest) = v"
  by (cases rest) (auto simp: takeWhile_eq_all_conv list_all_iff takeWhile_append2 takeWhile_append1)

lemma match_key_line:
  assumes "list_all isspace ws1" and "list_all isspace ws2"
  shows "match_key key (key @ ws1 @ CHR ''='' # ws2 @ r) = Some (skip_space r)"
proof -
  have e: "\<not> isspace CHR ''=''" by (simp add: isspace_def)
  have "skip_space (ws1 @ CHR ''='' # ws2 @ r) = CHR ''='' # ws2 @ r"
    using assms(1) e by (simp add: skip_space_run skip_space_stop)
  then show ?thesis
    using assms(2) by (simp add: match_key_def match_literal_def skip_space_run)
qed

lemma sscanf_bool_true:
  assumes "list_all isspace ws1" and "list_all isspace ws2"
    and "strcasecmp ''true'' v = 0" and "rest = [] \<or> isspace (hd rest)"
  shows "sscanf_bool key (key @ ws1 @ CHR ''='' # ws2 @ v @ rest) = Some v"
proof -
  note tv = true_value [OF assms(3)]
  from tv(1) obtain c v' where v: "v = c # v'" by (cases v) auto
  with tv(2) have c: "\<not> isspace c" by simp
  have s: "skip_space (v @ rest) = v @ rest"
    using v c by (simp add: skip_space_stop)
  have t: "takeWhile (\<lambda>c. \<not> isspace c) (v @ rest) = v"
    by (rule takeWhile_word [OF tv(2) assms(4)])
  have "conv_s 5 (v @ rest) = Some (v, rest)"
    unfolding conv_s_def s t Let_def using tv(1) v by simp
  then show ?thesis
    by (simp add: sscanf_bool_def match_key_line [OF assms(1,2)] s)
qed

lemma sscanf_bool_other_key:
  "sscanf_bool ''NoDisplay'' (''Terminal'' @ r) = None"
  by (simp add: sscanf_bool_def match_key_def match_literal_def)

lemma parse_line_true:
  assumes "key = ''NoDisplay'' \<or> key = ''Terminal''"
    and "list_all isspace ws1" and "list_all isspace ws2"
    and "strcasecmp ''true'' v = 0" and "rest = [] \<or> isspace (hd rest)"
    and "inside_desktop_entry e"
  shows "parse_line (key @ ws1 @ CHR ''='' # ws2 @ v @ rest) e = (True, e\<lparr>command := []\<rparr>)"
proof -
  note b = sscanf_bool_true [OF assms(2-5)]
  from assms(1) show ?thesis
  proof
    assume "key = ''NoDisplay''"
    with b [of key] assms(4,6) show ?thesis by (simp add: parse_line_def)
  next
    assume k: "key = ''Terminal''"
    have "sscanf_bool ''NoDisplay'' (key @ ws1 @ CHR ''='' # ws2 @ v @ rest) = None"
      unfolding k by (rule sscanf_bool_other_key)
    with b [of key] k assms(4,6) show ?thesis by (simp add: parse_line_def)
  qed
qed

lemma env_words_inside:
  "inside_desktop_entry (env_words line offset e) = inside_desktop_entry e"
proof (induction line offset e rule: env_words.induct)
  case (1 line offset e)
  show ?case
  proof (cases "sscanf_word (drop offset line)")
    case None
    then show ?thesis by (subst env_words.simps) simp
  next
    case (Some p)
    obtain tok len where p: "p = (tok, len)" by (cases p)
    show ?thesis
    proof (cases "\<not> strchr (drop 1 tok) CHR ''='' \<and> take 1 tok \<noteq> ''-''")
      case True
      with Some p show ?thesis by (subst env_words.simps) simp
    next
      case False
      have "inside_desktop_entry (env_words line (offset + len) (e\<lparr>command := []\<rparr>))
              = inside_desktop_entry (e\<lparr>command := []\<rparr>)"
        using Some p False by (intro "1.IH" [of p tok len]) simp_all
      moreover have "env_words line offset e = env_words line (offset + len) (e\<lparr>command := []\<rparr>)"
        using Some p False by (subst env_words.simps) auto
      ultimately show ?thesis by simp
    qed
  qed
qed
lemma parse_line_keeps_inside:
  "inside_desktop_entry e \<Longrightarrow> inside_desktop_entry (snd (parse_line line e))"
  by (auto simp: parse_line_def Let_def env_words_inside split: option.splits)

lemma parse_line_break:
  "parse_line line e = (True, e') \<Longrightarrow> command e' = []"
  by (auto simp: parse_line_def Let_def split: option.splits if_splits)

lemma scan_lines_stop:
  assumes brk: "\<And>e. inside_desktop_entry e \<Longrightarrow> fst (parse_line l e)"
  shows "inside_desktop_entry e \<Longrightarrow>
         scan_lines (xs @ l # post) e = scan_lines (xs @ [l]) e
         \<and> command (scan_lines (xs @ [l]) e) = []"
proof (induction xs arbitrary: e)
  case Nil
  obtain b e' where p: "parse_line l e = (b, e')" by (cases "parse_line l e")
  with brk [OF Nil] have "b" by simp
  with p parse_line_break [of l e e'] show ?case by simp
next
  case (Cons x xs)
  obtain b e' where p: "parse_line x e = (b, e')" by (cases "parse_line x e")
  show ?case
  proof (cases b)
    case True
    with p parse_line_break [of x e e'] show ?thesis by simp
  next
    case False
    from parse_line_keeps_inside [OF Cons.prems, of x] p have "inside_desktop_entry e'" by simp
    from Cons.IH [OF this] p False show ?thesis by simp
  qed
qed

lemma parse_line_header:
  "\<not> inside_desktop_entry e \<Longrightarrow> strcasecmp (''[Desktop Entry]'' @ [CHR 0x0A]) hdr = 0 \<Longrightarrow>
   parse_line hdr e = (False, e\<lparr>inside_desktop_entry := True\<rparr>)"
  by (simp add: parse_line_def)

lemma scan_lines_stop_after_header:
  assumes brk: "\<And>e. inside_desktop_entry e \<Longrightarrow> fst (parse_line l e)"
    and hdr: "strcasecmp (''[Desktop Entry]'' @ [CHR 0x0A]) hdr = 0"
  shows "scan_lines (pre @ hdr # mid @ l # post) e = scan_lines (pre @ hdr # mid @ [l]) e
         \<and> command (scan_lines (pre @ hdr # mid @ [l]) e) = []"
proof (induction pre arbitrary: e)
  case Nil
  show ?case
  proof (cases "inside_desktop_entry e")
    case True
    from scan_lines_stop [of l e "hdr # mid" post, OF brk True] show ?thesis by simp
  next
    case False
    have "inside_desktop_entry (e\<lparr>inside_desktop_entry := True\<rparr>)" by simp
    from scan_lines_stop [of l _ mid post, OF brk this] parse_line_header [OF False hdr]
    show ?thesis by simp
  qed
next
  case (Cons x pre)
  obtain b e' where p: "parse_line x e = (b, e')" by (cases "parse_line x e")
  show ?case
  proof (cases b)
    case True
    with p parse_line_break [of x e e'] show ?thesis by simp
  next
    case False
    with Cons.IH [of e'] p show ?thesis by simp
  qed
qed


text \<open>
  Claim C5. Take a descriptor file in which a line equal to the section header without
  regard to case comes before a line made of the key \<^verbatim>\<open>NoDisplay\<close> or \<^verbatim>\<open>Terminal\<close>,
  optional white space, \<^verbatim>\<open>=\<close>, optional white space and a value that equals
  \<^verbatim>\<open>true\<close> without regard to case (followed by white space or by nothing). Whatever the
  other lines are, before, between or after the two, \<^verbatim>\<open>Exec\<close> lines included, the
  parser ends with no command, the lines after the key line change nothing (they are not
  parsed), and \<^verbatim>\<open>parse_desktop_entry\<close> returns 0 and leaves the command list and the
  output as they were.
\<close>

theorem disqualified_entry:
  assumes "strcasecmp (''[Desktop Entry]'' @ [CHR 0x0A]) hdr = 0"
    and "key = ''NoDisplay'' \<or> key = ''Terminal''"
    and "list_all isspace ws1" and "list_all isspace ws2"
    and "strcasecmp ''true'' v = 0"
    and "rest = [] \<or> isspace (hd rest)"
    and "l = key @ ws1 @ ''='' @ ws2 @ v @ rest"
  shows "command (scan_lines (pre @ hdr # mid @ l # post) entry0) = []
       \<and> scan_lines (pre @ hdr # mid @ l # post) entry0
           = scan_lines (pre @ hdr # mid @ [l]) entry0
       \<and> (fopen sys fpath = Inr file \<and> getlines (buf file) = pre @ hdr # mid @ l # post
            \<longrightarrow> parse_desktop_entry sys fpath s = (0, s))"
proof -
  have brk: "\<And>e. inside_desktop_entry e \<Longrightarrow> fst (parse_line l e)"
    using parse_line_true [OF assms(2-6)] assms(7) by simp
  note stop = scan_lines_stop_after_header [OF brk assms(1), of pre mid post entry0]
  then have c: "command (scan_lines (pre @ hdr # mid @ l # post) entry0) = []" by simp
  then have "fopen sys fpath = Inr file \<and> getlines (buf file) = pre @ hdr # mid @ l # post
            \<longrightarrow> parse_desktop_entry sys fpath s = (0, s)"
    by (simp add: parse_desktop_entry_def)
  with c stop show ?thesis by simp
qed

text \<open>
  A file with a valid \<^verbatim>\<open>Exec\<close> line before and after \<^verbatim>\<open>Terminal = TRUE\<close> adds nothing,
  although the first \<^verbatim>\<open>Exec\<close> line alone gives the command \<^verbatim>\<open>foo\<close>.
\<close>

theorem disqualified_entry_witness:
  "parse_desktop_entry
     (desktop_os ''[Desktop Entry]\<newline>Exec=foo\<newline>Terminal = TRUE\<newline>Exec=bar\<newline>'')
     ''/usr/share/applications/foo.desktop'' initial_state = (0, initial_state)
   \<and> command (scan_lines [''[Desktop Entry]\<newline>'', ''Exec=foo\<newline>''] entry0) = ''foo''"
proof
  let ?content = "''[Desktop Entry]\<newline>Exec=foo\<newline>Terminal = TRUE\<newline>Exec=bar\<newline>''"
  let ?file = "\<lparr>buf = ?content, rd_err = None\<rparr>"
  have h: "strcasecmp (''[Desktop Entry]'' @ [CHR 0x0A]) ''[Desktop Entry]\<newline>'' = 0"
    by code_simp
  have k: "''Terminal'' = ''NoDisplay'' \<or> ''Terminal'' = ''Terminal''" by simp
  have w: "list_all isspace '' ''" by (simp add: isspace_def)
  have v: "strcasecmp ''true'' ''TRUE'' = 0" by code_simp
  have r: "''\<newline>'' = [] \<or> isspace (hd ''\<newline>'')" by (simp add: isspace_def)
  have l: "''Terminal = TRUE\<newline>'' = ''Terminal'' @ '' '' @ ''='' @ '' '' @ ''TRUE'' @ ''\<newline>''"
    by simp
  have f: "fopen (desktop_os ?content) ''/usr/share/applications/foo.desktop'' = Inr ?file"
    by (simp add: desktop_os_def fopen_def PATH_MAX_def)
  have g: "getlines (buf ?file)
             = [] @ ''[Desktop Entry]\<newline>'' # [''Exec=foo\<newline>'']
                  @ ''Terminal = TRUE\<newline>'' # [''Exec=bar\<newline>'']"
    by simp
  from disqualified_entry [OF h k w w v r l, of "[]" "[''Exec=foo\<newline>'']" "[''Exec=bar\<newline>'']"
      "desktop_os ?content" "''/usr/share/applications/foo.desktop''" ?file initial_state] f g
  show "parse_desktop_entry (desktop_os ?content) ''/usr/share/applications/foo.desktop''
          initial_state = (0, initial_state)"
    by blast
next
  show "command (scan_lines [''[Desktop Entry]\<newline>'', ''Exec=foo\<newline>''] entry0) = ''foo''"
    by code_simp
qed

section \<open>Lines read by \<^verbatim>\<open>getline\<close>\<close>
















section \<open>Streaming the selections\<close>


lemma wait_loop_neither:
  "wait_loop argv0 pid k (replicate n Neither @ ws) failure
     = map_option (\<lambda>(r, ev). (r, replicate n (Waitpid pid) @ ev))
         (wait_loop argv0 pid k ws failure)"
proof (induction n)
  case 0
  show ?case by (simp add: option.map_ident split_def)
next
  case (Suc n)
  then show ?case
    by (simp add: option.map_comp comp_def split_def replicate_app_Cons_same)
qed

lemma replicate_Suc_append: "replicate n x @ [x] = replicate (Suc n) x"
  by (simp add: replicate_append_same)



section \<open>The result of \<^verbatim>\<open>menu\<close>\<close>

lemma read_selections_failure:
  "fst (read_selections ls fk) = (if fork_fails ls fk then 1 else 0)"
proof (induction ls arbitrary: fk)
  case Nil
  show ?case by simp
next
  case (Cons l ls)
  show ?case
  proof (cases "length l \<ge> 1 \<and> last l = CHR 0x0A")
    case False
    with Cons.IH [of fk] show ?thesis by (auto simp: split_def)
  next
    case True
    show ?thesis
    proof (cases fk)
      case Nil
      with True Cons.IH [of "[]"] show ?thesis by (auto simp: split_def)
    next
      case (Cons b fk')
      with True Cons.IH [of fk'] show ?thesis by (cases b) (auto simp: split_def)
    qed
  qed
qed

lemma stream_selections_failure:
  "fst (stream_selections mc argv0)
     = (if \<not> close_ok mc \<or> \<not> pipe_fdopen_ok mc
           \<or> fork_fails (getlines (buf (menu_output mc))) (forks mc)
           \<or> rd_err (menu_output mc) \<noteq> None
        then 1 else 0)"
proof -
  obtain f ev where r: "read_selections (getlines (buf (menu_output mc))) (forks mc) = (f, ev)"
    by (cases "read_selections (getlines (buf (menu_output mc))) (forks mc)")
  with read_selections_failure [of "getlines (buf (menu_output mc))" "forks mc"]
  have f: "f = (if fork_fails (getlines (buf (menu_output mc))) (forks mc) then 1 else 0)"
    by simp
  show ?thesis
    using r f by (auto simp: stream_selections_def split: option.splits)
qed

lemma wait_loop_decides:
  assumes "w \<noteq> Neither" and "w \<noteq> Signaled 0"
  shows "\<exists>ev. wait_loop argv0 pid SIGHUP (w # ws) 1 = Some (1, ev)"
    and "\<exists>ev. wait_loop argv0 pid 0 (w # ws) 0 = Some (reconcile False w, ev)"
  using assms by (cases w; simp add: reconcile_def)+

lemma menu_result:
  assumes "waits mc = replicate n Neither @ w # ws" and "w \<noteq> Neither" and "w \<noteq> Signaled 0"
  shows "\<exists>ev. menu mc argv0 = Some (reconcile (fatal_error mc) w, ev)"
proof (cases "pipe_ok mc")
  case False
  then show ?thesis by (simp add: menu_def fatal_error_def reconcile_def)
next
  case True
  show ?thesis
  proof (cases "menu_fork mc")
    case None
    with True show ?thesis by (simp add: menu_def fatal_error_def reconcile_def)
  next
    case (Some pid)
    obtain f ev where s: "stream_selections mc argv0 = (f, ev)"
      by (cases "stream_selections mc argv0")
    show ?thesis
    proof (cases "fatal_error mc")
      case fatal: True
      with True Some s stream_selections_failure [of mc argv0] have f: "f = 1"
        by (auto simp: fatal_error_def split: if_splits)
      from wait_loop_decides(1) [OF assms(2,3), of argv0 pid ws]
      obtain ev2 where "wait_loop argv0 pid SIGHUP (w # ws) 1 = Some (1, ev2)" by blast
      with True Some s f fatal show ?thesis
        by (simp add: menu_def assms(1) wait_loop_neither reconcile_def)
    next
      case ok: False
      with True Some s stream_selections_failure [of mc argv0] have f: "f = 0"
        by (auto simp: fatal_error_def split: if_splits)
      from wait_loop_decides(2) [OF assms(2,3), of argv0 pid ws]
      obtain ev2 where "wait_loop argv0 pid 0 (w # ws) 0 = Some (reconcile False w, ev2)"
        by blast
      with True Some s f ok show ?thesis
        by (simp add: menu_def assms(1) wait_loop_neither)
    qed
  qed
qed

lemma read_selections_fork_fails:
  "read_selections (map (\<lambda>c. c @ [CHR 0x0A]) cmds @ (cmd @ [CHR 0x0A]) # rest)
       (replicate (length cmds) True @ False # fk)
     = (1, map Fork_command cmds @ [Say (Stderr ''del: could not fork to execute command'')])"
  by (induction cmds) simp_all


text \<open>
  Claim C3, as amended. Let the calls of \<^verbatim>\<open>waitpid\<close> end with a result \<open>w\<close> that is a
  failure, an exit or a death by a signal (signal numbers are positive). Then \<^verbatim>\<open>menu\<close>
  returns: 1 if a fatal error occurred during setup or while reading the selections;
  otherwise 2 if \<^verbatim>\<open>waitpid\<close> failed; otherwise the selector's exit status if it exited;
  otherwise 128 plus the number of the signal that killed it. In particular, when the
  forks for the first commands succeed and the next fork fails, the commands after it are
  not launched, the selector is sent \<open>SIGHUP\<close>, and when it then dies from \<open>SIGHUP\<close> the
  result is 1 and nothing is reported about that signal.
\<close>

theorem menu_reconciles:
  assumes "waits mc = replicate n Neither @ w # ws" and "w \<noteq> Neither" and "w \<noteq> Signaled 0"
  shows "(\<exists>ev. menu mc argv0 = Some (reconcile (fatal_error mc) w, ev))
       \<and> (pipe_ok mc \<and> menu_fork mc = Some pid \<and> close_ok mc \<and> pipe_fdopen_ok mc
            \<and> getlines (buf (menu_output mc))
                = map (\<lambda>c. c @ [CHR 0x0A]) cmds @ (cmd @ [CHR 0x0A]) # rest
            \<and> forks mc = replicate (length cmds) True @ False # fk
            \<and> w = Signaled SIGHUP
          \<longrightarrow> menu mc argv0
                = Some (1, map Fork_command cmds
                           @ [Say (Stderr ''del: could not fork to execute command'')]
                           @ (if pipe_fclose_ok mc then []
                              else [Say (Stderr (''del: unable to close '' @ argv0
                                                 @ '' output file''))])
                           @ [Kill pid SIGHUP]
                           @ replicate (Suc n) (Waitpid pid)))"
proof (intro conjI impI)
  show "\<exists>ev. menu mc argv0 = Some (reconcile (fatal_error mc) w, ev)"
    by (rule menu_result [OF assms])
next
  assume a: "pipe_ok mc \<and> menu_fork mc = Some pid \<and> close_ok mc \<and> pipe_fdopen_ok mc
            \<and> getlines (buf (menu_output mc))
                = map (\<lambda>c. c @ [CHR 0x0A]) cmds @ (cmd @ [CHR 0x0A]) # rest
            \<and> forks mc = replicate (length cmds) True @ False # fk
            \<and> w = Signaled SIGHUP"
  let ?closing = "if pipe_fclose_ok mc then []
        else [Say (Stderr (''del: unable to close '' @ argv0 @ '' output file''))]"
  have ss: "stream_selections mc argv0
              = (1, (map Fork_command cmds
                      @ [Say (Stderr ''del: could not fork to execute command'')]) @ ?closing)"
    using a read_selections_fork_fails [of cmds cmd rest fk]
    by (simp add: stream_selections_def)
  have wl: "wait_loop argv0 pid SIGHUP (waits mc) 1 = Some (1, replicate (Suc n) (Waitpid pid))"
    using a unfolding assms(1) wait_loop_neither by (simp add: replicate_append_same)
  show "menu mc argv0
          = Some (1, map Fork_command cmds
                     @ [Say (Stderr ''del: could not fork to execute command'')]
                     @ ?closing @ [Kill pid SIGHUP] @ replicate (Suc n) (Waitpid pid))"
    using a ss wl by (simp add: menu_def)
qed

text \<open>Scenario 4 of the specification: the fork for the second command fails.\<close>

theorem menu_reconciles_witness:
  "menu scenario_4 ''dmenu''
     = Some (1, [Fork_command ''firefox'',
                 Say (Stderr ''del: could not fork to execute command''),
                 Kill 4242 SIGHUP, Waitpid 4242])
   \<and> fatal_error scenario_4"
proof
  have w: "waits scenario_4 = replicate 0 Neither @ Signaled SIGHUP # []"
    by (simp add: scenario_4_def)
  have n: "Signaled SIGHUP \<noteq> Neither" by simp
  have z: "Signaled SIGHUP \<noteq> Signaled 0" by (simp add: SIGHUP_def)
  have h: "pipe_ok scenario_4 \<and> menu_fork scenario_4 = Some 4242 \<and> close_ok scenario_4
           \<and> pipe_fdopen_ok scenario_4
           \<and> getlines (buf (menu_output scenario_4))
               = map (\<lambda>c. c @ [CHR 0x0A]) [''firefox''] @ (''gimp'' @ [CHR 0x0A]) # [''xterm\<newline>'']
           \<and> forks scenario_4 = replicate (length [''firefox'']) True @ False # []
           \<and> Signaled SIGHUP = Signaled SIGHUP"
    by (simp add: scenario_4_def)
  have c: "pipe_fclose_ok scenario_4" by (simp add: scenario_4_def)
  from menu_reconciles [OF w n z, of "''dmenu''" 4242 "[''firefox'']" "''gimp''" "[''xterm\<newline>'']" "[]"]
    h c
  show "menu scenario_4 ''dmenu''
     = Some (1, [Fork_command ''firefox'',
                 Say (Stderr ''del: could not fork to execute command''),
                 Kill 4242 SIGHUP, Waitpid 4242])"
    by simp
next
  show "fatal_error scenario_4"
    by (simp add: fatal_error_def scenario_4_def)
qed

text \<open>
  Claim C3 as the specification states it fails when \<^verbatim>\<open>waitpid\<close> fails: no fatal error
  occurred, the selector is not known to have exited or to have been killed, the
  specification gives 0, and \<^verbatim>\<open>menu\<close> returns 2.
\<close>

theorem menu_reconciles_counterexample:
  "menu wait_fails ''dmenu''
     = Some (2, [Fork_command ''firefox'', Waitpid 4242,
                 Say (Stderr ''del: error waiting on dmenu'')])
   \<and> \<not> fatal_error wait_fails
   \<and> waits wait_fails = [Wait_failed]
   \<and> spec_reconcile (fatal_error wait_fails) Wait_failed = 0"
  by (simp add: menu_def stream_selections_def wait_fails_def fatal_error_def
      spec_reconcile_def)

section \<open>Entries that differ only in case\<close>


lemma ci_distinct_iff: "ci_distinct cs \<longleftrightarrow> distinct (map (map tolower) cs)"
  by (induction cs) (auto simp: strcasecmp_0_iff list_all_iff)














section \<open>What the write phase writes\<close>

lemma strcmp_0_iff: "strcmp a b = 0 \<longleftrightarrow> a = b"
  by (induction a b rule: strcmp.induct) auto

lemma write_entries_written:
  "write_entries fails prev cs k = (w, True) \<Longrightarrow>
   w = (case prev of None \<Rightarrow> remdups_adj cs | Some p \<Rightarrow> tl (remdups_adj (p # cs)))"
proof (induction cs arbitrary: prev k w)
  case Nil
  then show ?case by (simp split: option.splits)
next
  case (Cons c cs)
  show ?case
  proof (cases "case prev of None \<Rightarrow> True | Some p \<Rightarrow> strcmp p c \<noteq> 0")
    case True
    with Cons.prems obtain w' where w: "w = c # w'"
      and r: "write_entries fails (Some c) cs (Suc k) = (w', True)"
      by (auto split: if_splits prod.splits)
    from Cons.IH [OF r] have "w' = tl (remdups_adj (c # cs))" by simp
    with w True show ?thesis
      by (auto simp: strcmp_0_iff split: option.splits)
  next
    case False
    with Cons.prems have r: "write_entries fails (Some c) cs k = (w, True)" by simp
    from Cons.IH [OF r] have "w = tl (remdups_adj (c # cs))" by simp
    with False show ?thesis
      by (auto simp: strcmp_0_iff split: option.splits)
  qed
qed

lemma write_entries_no_failure:
  "snd (write_entries None prev cs k)"
  by (induction cs arbitrary: prev k) (auto simp: split_def)

lemma sorted_wrt_remdups_adj:
  "sorted_wrt P xs \<Longrightarrow> sorted_wrt P (remdups_adj xs)"
  by (induction xs rule: remdups_adj.induct) auto


lemma strcasecmp_antisym:
  "strcasecmp a b \<le> 0 \<Longrightarrow> strcasecmp b a \<le> 0 \<Longrightarrow> strcasecmp a b = 0"
proof (induction a b rule: strcasecmp.induct)
  case (4 x xs y ys)
  show ?case
  proof (cases "tolower x = tolower y")
    case True
    with 4 show ?thesis by simp
  next
    case False
    then have "(of_char (tolower x) :: nat) \<noteq> of_char (tolower y)" by simp
    with 4 False show ?thesis by (auto split: if_splits)
  qed
qed simp_all

text \<open>
  In an array sorted without regard to case, the entries between two identical ones are
  equal to them without regard to case. So when the list holds no two spellings of one
  name, identical entries are neighbours and the loop writes each name once.
\<close>

lemma remdups_adj_sorted_distinct:
  assumes "sorted_wrt (\<lambda>a b. strcasecmp a b \<le> 0) xs"
    and "\<And>a b. a \<in> set xs \<Longrightarrow> b \<in> set xs \<Longrightarrow> strcasecmp a b = 0 \<Longrightarrow> a = b"
  shows "distinct (remdups_adj xs)"
  using assms
proof (induction xs rule: remdups_adj.induct)
  case 1
  show ?case by simp
next
  case (2 x)
  show ?case by simp
next
  case (3 x y xs)
  have nv: "a = b" if "a \<in> set (x # y # xs)" and "b \<in> set (x # y # xs)"
    and "strcasecmp a b = 0" for a b
    using that by (rule "3.prems"(2))
  from "3.prems"(1) have xy: "strcasecmp x y \<le> 0"
    and xz: "\<And>z. z \<in> set xs \<Longrightarrow> strcasecmp x z \<le> 0"
    and yz: "\<And>z. z \<in> set xs \<Longrightarrow> strcasecmp y z \<le> 0"
    and sy: "sorted_wrt (\<lambda>a b. strcasecmp a b \<le> 0) (y # xs)"
    by (simp_all del: strcasecmp.simps)
  show ?case
  proof (cases "x = y")
    case True
    with sy have sx: "sorted_wrt (\<lambda>a b. strcasecmp a b \<le> 0) (x # xs)" by simp
    have "a = b" if "a \<in> set (x # xs)" and "b \<in> set (x # xs)" and "strcasecmp a b = 0"
      for a b
    proof (rule nv)
      from that(1) show "a \<in> set (x # y # xs)" by auto
      from that(2) show "b \<in> set (x # y # xs)" by auto
      from that(3) show "strcasecmp a b = 0" .
    qed
    from "3.IH"(1) [OF True sx this] have "distinct (remdups_adj (x # xs))" .
    with True show ?thesis by simp
  next
    case False
    have "a = b" if "a \<in> set (y # xs)" and "b \<in> set (y # xs)" and "strcasecmp a b = 0"
      for a b
    proof (rule nv)
      from that(1) show "a \<in> set (x # y # xs)" by auto
      from that(2) show "b \<in> set (x # y # xs)" by auto
      from that(3) show "strcasecmp a b = 0" .
    qed
    from "3.IH"(2) [OF False sy this] have d: "distinct (remdups_adj (y # xs))" .
    have "x \<notin> set (y # xs)"
    proof
      assume "x \<in> set (y # xs)"
      with False have m: "x \<in> set xs" by simp
      from yz [OF m] xy have "strcasecmp x y = 0" by (rule strcasecmp_antisym [rotated])
      with nv [of x y] have "x = y" by simp
      with False show False by simp
    qed
    then have "x \<notin> set (remdups_adj (y # xs))" unfolding remdups_adj_set .
    with d False show ?thesis by simp
  qed
qed

lemma no_case_variants_ci_distinct:
  assumes "distinct xs"
    and "\<forall>a \<in> set xs. \<forall>b \<in> set xs. strcasecmp a b = 0 \<longrightarrow> a = b"
  shows "ci_distinct xs"
proof -
  from assms(2) have "inj_on (map tolower) (set xs)"
    by (auto simp: inj_on_def strcasecmp_0_iff)
  with assms(1) show ?thesis by (simp add: ci_distinct_iff distinct_map)
qed

text \<open>
  Claim C1. The write phase sorts the entries without regard to case and writes them in
  that order, skipping an entry when \<^verbatim>\<open>strcmp\<close> finds it identical to the entry just
  before it in the sorted array. For every array that \<^verbatim>\<open>qsort\<close> may leave and whenever
  the write phase succeeds, the destination holds the lines so written, in
  case-insensitive sorted order, and every name of the command list is among them. When
  the command list holds no two spellings of one name, no two lines are equal without
  regard to case: each name is written exactly once, as the claim says. With two
  spellings the claim fails, see the second run below: the test with \<^verbatim>\<open>strcmp\<close> skips
  neither a name that differs in case from the line before it nor a name identical to an
  earlier line that is not the line before it.
\<close>

theorem persisted_list:
  assumes "qsort_post (commands s) (sorted_array oc)"
    and "mkstemp oc \<noteq> Some []"
    and "persist oc path sys s = Some (0, sys', s')"
  shows "files sys' path = file_of (remdups_adj (sorted_array oc))
       \<and> write_entries (fprintf_fails oc) None (sorted_array oc) 0
           = (remdups_adj (sorted_array oc), True)
       \<and> sorted_wrt (\<lambda>a b. strcasecmp a b \<le> 0) (remdups_adj (sorted_array oc))
       \<and> set (remdups_adj (sorted_array oc)) = set (commands s)
       \<and> (no_case_variants (commands s) \<longrightarrow> ci_distinct (remdups_adj (sorted_array oc)))"
proof -
  obtain w ok where we: "write_entries (fprintf_fails oc) None (sorted_array oc) 0 = (w, ok)"
    by (cases "write_entries (fprintf_fails oc) None (sorted_array oc) 0")
  from assms(3) have short: "\<not> length path \<ge> PATH_MAX"
    by (auto simp: persist_def split: if_splits)
  from assms(3) short obtain suffix where m: "mkstemp oc = Some suffix"
    by (cases "mkstemp oc") (auto simp: persist_def)
  with assms(2) have ne: "path @ suffix \<noteq> path" by simp
  from assms(3) short m we have ok: "ok"
    by (cases ok) (auto simp: persist_def cleanup_def Let_def split: if_splits)
  with we write_entries_written [of "fprintf_fails oc" None "sorted_array oc" 0 w]
  have w: "w = remdups_adj (sorted_array oc)" by simp
  from assms(3) short m we ok have "sys' = rename (path @ suffix) path
      (put_file (path @ suffix) w (put_file (path @ suffix) [] sys))"
    by (auto simp: persist_def cleanup_def Let_def split: if_splits)
  with ne have f: "files sys' path = file_of w"
    by (simp add: rename_def put_file_def)
  from assms(1) have "mset (sorted_array oc) = mset (commands s)"
    and so: "sorted_wrt (\<lambda>a b. strcasecmp a b \<le> 0) (sorted_array oc)"
    by (simp_all add: qsort_post_def stringcomparator_def)
  then have se: "set (sorted_array oc) = set (commands s)" by (metis set_mset_mset)
  have "ci_distinct (remdups_adj (sorted_array oc))" if "no_case_variants (commands s)"
  proof -
    from that se
    have nv: "\<forall>a \<in> set (sorted_array oc). \<forall>b \<in> set (sorted_array oc).
                strcasecmp a b = 0 \<longrightarrow> a = b"
      by (simp add: no_case_variants_def list_all_iff)
    from nv have "distinct (remdups_adj (sorted_array oc))"
      by (intro remdups_adj_sorted_distinct [OF so]) blast
    moreover from nv
    have "\<forall>a \<in> set (remdups_adj (sorted_array oc)). \<forall>b \<in> set (remdups_adj (sorted_array oc)).
            strcasecmp a b = 0 \<longrightarrow> a = b"
      by simp
    ultimately show ?thesis by (rule no_case_variants_ci_distinct)
  qed
  with f w we ok se sorted_wrt_remdups_adj [OF so] show ?thesis by simp
qed

text \<open>
  Two runs in which every call succeeds and \<^verbatim>\<open>qsort\<close> leaves the array in an order that
  it may leave. The two \<^verbatim>\<open>gimp\<close> become one line. But \<^verbatim>\<open>foo\<close>, \<^verbatim>\<open>Foo\<close> and \<^verbatim>\<open>foo\<close>, as
  the three lines \<^verbatim>\<open>foo\<close>, \<^verbatim>\<open>Foo\<close>, \<^verbatim>\<open>foo\<close> of standard input leave them in the
  command list when both spellings resolve, are written as three lines, of which the first
  and the last are identical.
\<close>

theorem persisted_list_witness:
  "qsort_post (commands repeated_name) [''firefox'', ''gimp'', ''gimp'']
   \<and> no_case_variants (commands repeated_name)
   \<and> files (fst (snd (the (persist (all_ok [''firefox'', ''gimp'', ''gimp''])
                                ''/home/u/.del'' empty_os repeated_name)))) ''/home/u/.del''
       = file_of [''firefox'', ''gimp'']
   \<and> ci_distinct [''firefox'', ''gimp'']
   \<and> commands (snd (gather case_variants
                       (Stdin_file \<lparr>buf = ''foo\<newline>Foo\<newline>foo\<newline>'', rd_err = None\<rparr>)
                       ''/home/u/.del'' [] initial_state)) = commands variant_between
   \<and> qsort_post (commands variant_between) [''foo'', ''Foo'', ''foo'']
   \<and> \<not> no_case_variants (commands variant_between)
   \<and> files (fst (snd (the (persist (all_ok [''foo'', ''Foo'', ''foo''])
                                ''/home/u/.del'' empty_os variant_between)))) ''/home/u/.del''
       = file_of [''foo'', ''Foo'', ''foo'']"
proof -
  let ?oc = "all_ok [''firefox'', ''gimp'', ''gimp'']"
  let ?run = "persist ?oc ''/home/u/.del'' empty_os repeated_name"
  have "sorted_wrt (\<lambda>a b. strcasecmp a b \<le> 0) [''firefox'', ''gimp'', ''gimp'']"
    by code_simp
  then have q: "qsort_post (commands repeated_name) (sorted_array ?oc)"
    by (simp add: qsort_post_def stringcomparator_def repeated_name_def all_ok_def
        del: strcasecmp.simps)
  have m: "mkstemp ?oc \<noteq> Some []" by (simp add: all_ok_def)
  have "?run \<noteq> None" and "fst (the ?run) = 0" by code_simp+
  then have r: "?run = Some (0, fst (snd (the ?run)), snd (snd (the ?run)))"
    by (metis option.collapse prod.collapse)
  have a: "sorted_array ?oc = [''firefox'', ''gimp'', ''gimp'']" by (simp add: all_ok_def)
  have n: "no_case_variants (commands repeated_name)" by code_simp
  from persisted_list [OF q m r] q n
  have first: "qsort_post (commands repeated_name) [''firefox'', ''gimp'', ''gimp'']
      \<and> no_case_variants (commands repeated_name)
      \<and> files (fst (snd (the ?run))) ''/home/u/.del'' = file_of [''firefox'', ''gimp'']
      \<and> ci_distinct [''firefox'', ''gimp'']"
    unfolding a by simp
  let ?oc' = "all_ok [''foo'', ''Foo'', ''foo'']"
  let ?run' = "persist ?oc' ''/home/u/.del'' empty_os variant_between"
  have "sorted_wrt (\<lambda>a b. strcasecmp a b \<le> 0) [''foo'', ''Foo'', ''foo'']"
    by code_simp
  then have q': "qsort_post (commands variant_between) (sorted_array ?oc')"
    by (simp add: qsort_post_def stringcomparator_def variant_between_def all_ok_def
        del: strcasecmp.simps)
  have m': "mkstemp ?oc' \<noteq> Some []" by (simp add: all_ok_def)
  have "?run' \<noteq> None" and "fst (the ?run') = 0" by code_simp+
  then have r': "?run' = Some (0, fst (snd (the ?run')), snd (snd (the ?run')))"
    by (metis option.collapse prod.collapse)
  have a': "sorted_array ?oc' = [''foo'', ''Foo'', ''foo'']" by (simp add: all_ok_def)
  have g: "commands (snd (gather case_variants
                       (Stdin_file \<lparr>buf = ''foo\<newline>Foo\<newline>foo\<newline>'', rd_err = None\<rparr>)
                       ''/home/u/.del'' [] initial_state)) = commands variant_between"
    by code_simp
  have v: "\<not> no_case_variants (commands variant_between)" by code_simp
  from persisted_list [OF q' m' r'] q' g v
  have "commands (snd (gather case_variants
                       (Stdin_file \<lparr>buf = ''foo\<newline>Foo\<newline>foo\<newline>'', rd_err = None\<rparr>)
                       ''/home/u/.del'' [] initial_state)) = commands variant_between
      \<and> qsort_post (commands variant_between) [''foo'', ''Foo'', ''foo'']
      \<and> \<not> no_case_variants (commands variant_between)
      \<and> files (fst (snd (the ?run'))) ''/home/u/.del'' = file_of [''foo'', ''Foo'', ''foo'']"
    unfolding a' by simp
  with first show ?thesis by simp
qed

section \<open>The write phase replaces the destination or leaves it\<close>

lemma cleanup_result:
  assumes "cleanup oc tempname sys s = (r, sys', s')"
  shows "r = 1"
    and "p \<noteq> tempname \<Longrightarrow> files sys' p = files sys p"
    and "unlink_ok oc \<Longrightarrow> files sys' tempname = Inl ENOENT"
    and "printed s'
           = printed s @ Stderr (''del: '' @ tempname)
               # (if unlink_ok oc then []
                  else [Stderr (''del: could not delete temporary file '' @ quoted tempname)])"
  using assms by (auto simp: cleanup_def Let_def unlink_def say_def split: if_splits)

lemma persist_undefined: "persist oc path sys s = None \<longleftrightarrow> length path \<ge> PATH_MAX"
proof (cases "length path \<ge> PATH_MAX")
  case True
  then show ?thesis by (simp add: persist_def)
next
  case False
  have "persist oc path sys s \<noteq> None"
  proof
    assume undefined: "persist oc path sys s = None"
    show False
    proof (cases "mkstemp oc")
      case None
      with False undefined show ?thesis by (simp add: persist_def)
    next
      case (Some suffix)
      obtain written ok
        where "write_entries (fprintf_fails oc) None (sorted_array oc) 0 = (written, ok)"
        by (cases "write_entries (fprintf_fails oc) None (sorted_array oc) 0") auto
      with False Some undefined show ?thesis
        by (cases ok) (simp_all add: persist_def Let_def split: if_splits)
    qed
  qed
  with False show ?thesis by simp
qed

text \<open>
  The write phase is reached only after the file at \<open>path\<close> was opened or found missing,
  and a path of \<open>PATH_MAX\<close> bytes or more is neither: the refresh fails before it. So
  \<^verbatim>\<open>refresh_command_list\<close> never writes past the end of \<^verbatim>\<open>tempname\<close>.
\<close>

lemma gather_long_path:
  assumes "length path \<ge> PATH_MAX"
  shows "fst (gather sys inp path dirs s) = Some 1"
proof -
  have "load_commands_from_file sys (Some path) None s1 = ((1, ENAMETOOLONG), s1)" for s1
    using assms by (simp add: load_commands_from_file_def fopen_def)
  then show ?thesis
    by (simp add: gather_def split: prod.splits stdin.splits)
qed

lemma refresh_command_list_defined: "refresh_command_list oc inp path dirs sys s \<noteq> None"
proof
  assume undefined: "refresh_command_list oc inp path dirs sys s = None"
  obtain r s' where g: "gather sys inp path dirs s = (r, s')"
    by (cases "gather sys inp path dirs s") auto
  show False
  proof (cases "length path \<ge> PATH_MAX")
    case True
    from gather_long_path [OF True, of sys inp dirs s] g have "r = Some 1" by simp
    with g undefined show ?thesis by (simp add: refresh_command_list_def)
  next
    case False
    with g undefined persist_undefined [of oc path sys s'] show ?thesis
      by (cases r) (simp_all add: refresh_command_list_def split: if_splits)
  qed
qed

lemma persist_defined:
  "persist oc path sys s = Some r \<Longrightarrow> length path < PATH_MAX"
  using persist_undefined [of oc path sys s] by (cases "length path < PATH_MAX") auto

lemma persist_no_tempfile:
  assumes "mkstemp oc = None" and "length path < PATH_MAX"
  shows "persist oc path sys s
           = Some (1, sys, say (Stderr (''del: mkstemp: '' @ path @ failed_template oc)) s)"
  using assms by (simp add: persist_def)

lemma persist_success:
  assumes "mkstemp oc = Some suffix" and "suffix \<noteq> []" and "steps_ok oc"
    and "persist oc path sys s = Some (r, sys', s')"
  shows "r = 0"
    and "files sys' path = file_of (fst (write_entries (fprintf_fails oc) None (sorted_array oc) 0))"
    and "files sys' (path @ suffix) = Inl ENOENT"
    and "printed s' = printed s"
proof -
  obtain w ok where we: "write_entries (fprintf_fails oc) None (sorted_array oc) 0 = (w, ok)"
    by (cases "write_entries (fprintf_fails oc) None (sorted_array oc) 0")
  with assms(3) have ok: "ok" by (simp add: steps_ok_def)
  from assms(2) have ne: "path @ suffix \<noteq> path" by simp
  from assms(4) have short: "\<not> length path \<ge> PATH_MAX"
    by (auto simp: persist_def split: if_splits)
  from assms(1,3,4) we ok short
  have r: "r = 0" and sys': "sys' = rename (path @ suffix) path
      (put_file (path @ suffix) w (put_file (path @ suffix) [] sys))"
    and s': "s' = s\<lparr>commands := sorted_array oc\<rparr>"
    by (auto simp: persist_def steps_ok_def Let_def)
  show "r = 0" by (rule r)
  show "files sys' path = file_of (fst (write_entries (fprintf_fails oc) None (sorted_array oc) 0))"
    using sys' ne we by (simp add: rename_def put_file_def)
  show "files sys' (path @ suffix) = Inl ENOENT"
    using sys' by (simp add: rename_def)
  show "printed s' = printed s" using s' by simp
qed

lemma persist_reaches_cleanup:
  assumes "mkstemp oc = Some suffix" and "\<not> steps_ok oc" and "length path < PATH_MAX"
  shows "\<exists>sys0 s0. persist oc path sys s = Some (cleanup oc (path @ suffix) sys0 s0)
           \<and> (\<forall>p. p \<noteq> path @ suffix \<longrightarrow> files sys0 p = files sys p)
           \<and> printed s0 = printed s @ step_report oc (path @ suffix) path"
proof -
  let ?t = "path @ suffix"
  let ?sys1 = "put_file ?t [] sys"
  let ?s1 = "s\<lparr>commands := sorted_array oc\<rparr>"
  obtain w ok where we: "write_entries (fprintf_fails oc) None (sorted_array oc) 0 = (w, ok)"
    by (cases "write_entries (fprintf_fails oc) None (sorted_array oc) 0")
  let ?sys2 = "put_file ?t w ?sys1"
  let ?flush = "Stderr (''del: unable to flush changes to '' @ quoted ?t)"
  let ?rename = "Stderr (''del: unable to rename '' @ quoted ?t @ '' to '' @ quoted path)"
  consider (no_stream) "\<not> fdopen_ok oc"
    | (short_write) "fdopen_ok oc" "\<not> ok"
    | (no_flush) "fdopen_ok oc" "ok" "\<not> fflush_ok oc \<or> \<not> fsync_ok oc \<or> \<not> fclose_ok oc"
    | (no_rename) "fdopen_ok oc" "ok" "fflush_ok oc" "fsync_ok oc" "fclose_ok oc" "\<not> rename_ok oc"
    using assms(2) we by (auto simp: steps_ok_def)
  then show ?thesis
  proof cases
    case no_stream
    then have "persist oc path sys s = Some (cleanup oc ?t ?sys1 s)"
      using assms(1,3) by (simp add: persist_def Let_def)
    moreover have "\<forall>p. p \<noteq> ?t \<longrightarrow> files ?sys1 p = files sys p"
      by (simp add: put_file_def)
    moreover have "printed s = printed s @ step_report oc ?t path"
      using no_stream by (simp add: step_report_def)
    ultimately show ?thesis by blast
  next
    case short_write
    then have "persist oc path sys s = Some (cleanup oc ?t ?sys2 ?s1)"
      using assms(1,3) we by (simp add: persist_def Let_def)
    moreover have "\<forall>p. p \<noteq> ?t \<longrightarrow> files ?sys2 p = files sys p"
      by (simp add: put_file_def)
    moreover have "printed ?s1 = printed s @ step_report oc ?t path"
      using short_write we by (simp add: step_report_def)
    ultimately show ?thesis by blast
  next
    case no_flush
    then have "persist oc path sys s = Some (cleanup oc ?t ?sys2 (say ?flush ?s1))"
      using assms(1,3) we by (simp add: persist_def Let_def)
    moreover have "\<forall>p. p \<noteq> ?t \<longrightarrow> files ?sys2 p = files sys p"
      by (simp add: put_file_def)
    moreover have "printed (say ?flush ?s1) = printed s @ step_report oc ?t path"
      using no_flush we by (simp add: step_report_def say_def)
    ultimately show ?thesis by blast
  next
    case no_rename
    then have "persist oc path sys s = Some (cleanup oc ?t ?sys2 (say ?rename ?s1))"
      using assms(1,3) we by (simp add: persist_def Let_def)
    moreover have "\<forall>p. p \<noteq> ?t \<longrightarrow> files ?sys2 p = files sys p"
      by (simp add: put_file_def)
    moreover have "printed (say ?rename ?s1) = printed s @ step_report oc ?t path"
      using no_rename we by (simp add: step_report_def say_def)
    ultimately show ?thesis by blast
  qed
qed

lemma persist_failure:
  assumes "mkstemp oc = Some suffix" and "suffix \<noteq> []" and "\<not> steps_ok oc"
    and "persist oc path sys s = Some (r, sys', s')"
  shows "r = 1"
    and "files sys' path = files sys path"
    and "unlink_ok oc \<Longrightarrow> files sys' (path @ suffix) = Inl ENOENT"
    and "printed s'
           = printed s @ step_report oc (path @ suffix) path
               @ Stderr (''del: '' @ path @ suffix)
               # (if unlink_ok oc then []
                  else [Stderr (''del: could not delete temporary file ''
                                @ quoted (path @ suffix))])"
proof -
  let ?t = "path @ suffix"
  from assms(2) have ne: "path \<noteq> ?t" by simp
  from persist_defined [OF assms(4)] have short: "length path < PATH_MAX" .
  from persist_reaches_cleanup [OF assms(1,3) short, of sys s] assms(4)
  obtain sys0 s0 where c: "cleanup oc ?t sys0 s0 = (r, sys', s')"
    and f0: "\<forall>p. p \<noteq> ?t \<longrightarrow> files sys0 p = files sys p"
    and p0: "printed s0 = printed s @ step_report oc ?t path"
    by auto
  note cr = cleanup_result [OF c]
  show "r = 1" by (rule cr(1))
  show "files sys' path = files sys path" using cr(2) [OF ne] f0 ne by simp
  show "unlink_ok oc \<Longrightarrow> files sys' ?t = Inl ENOENT" by (rule cr(3))
  show "printed s'
           = printed s @ step_report oc ?t path
               @ Stderr (''del: '' @ ?t)
               # (if unlink_ok oc then []
                  else [Stderr (''del: could not delete temporary file '' @ quoted ?t)])"
    using cr(4) p0 by simp
qed


text \<open>
  Claim C7, as amended. Let \<^verbatim>\<open>mkstemp\<close>, when it succeeds, give a name other than the
  destination's, and let the destination path be shorter than \<open>PATH_MAX\<close>, as it is
  whenever the refresh reaches the write phase. The write phase returns 0 or 1, and 0
  exactly when \<^verbatim>\<open>mkstemp\<close>, \<^verbatim>\<open>fdopen\<close>, every write, \<^verbatim>\<open>fflush\<close>, \<^verbatim>\<open>fsync\<close>, \<^verbatim>\<open>fclose\<close>
  and \<^verbatim>\<open>rename\<close> all succeed; then the destination holds the complete new list, the
  temporary name is gone and nothing is printed. When a step fails the result is 1 and the
  destination is what it was. The failure is reported. That of \<^verbatim>\<open>mkstemp\<close> has a message
  of its own, which shows the template as the call left it; no file was created and the
  system is unchanged. A failure of \<^verbatim>\<open>fflush\<close>, \<^verbatim>\<open>fsync\<close> or \<^verbatim>\<open>fclose\<close> is reported as a
  failure to flush the changes and one of \<^verbatim>\<open>rename\<close> as a failure to rename, each
  followed by the message that names the temporary file; that message alone is the report
  of a failed \<^verbatim>\<open>fdopen\<close> or write. Then \<^verbatim>\<open>unlink\<close> is called on the temporary file: when
  it succeeds the file is gone, and when it fails that is reported as well.
\<close>

theorem persist_is_atomic:
  assumes "mkstemp oc \<noteq> Some []" and "persist oc path sys s = Some (r, sys', s')"
  shows "(r = 0 \<or> r = 1)
       \<and> (r = 0 \<longleftrightarrow> mkstemp oc \<noteq> None \<and> steps_ok oc)
       \<and> (r = 1 \<longrightarrow> files sys' path = files sys path)
       \<and> (r = 0 \<longrightarrow> files sys' path = file_of (remdups_adj (sorted_array oc)))
       \<and> (mkstemp oc = None
            \<longrightarrow> sys' = sys
                \<and> printed s'
                    = printed s @ [Stderr (''del: mkstemp: '' @ path @ failed_template oc)])
       \<and> (mkstemp oc = Some suffix \<and> r = 1
            \<longrightarrow> printed s'
                  = printed s @ step_report oc (path @ suffix) path
                      @ Stderr (''del: '' @ path @ suffix)
                      # (if unlink_ok oc then []
                         else [Stderr (''del: could not delete temporary file ''
                                       @ quoted (path @ suffix))])
                \<and> (unlink_ok oc \<longrightarrow> files sys' (path @ suffix) = Inl ENOENT))
       \<and> (mkstemp oc = Some suffix \<and> r = 0
            \<longrightarrow> files sys' (path @ suffix) = Inl ENOENT \<and> printed s' = printed s)"
proof (cases "mkstemp oc")
  case None
  from persist_defined [OF assms(2)] have short: "length path < PATH_MAX" .
  from assms(2) persist_no_tempfile [OF None short, of sys s]
  have "r = 1" and "sys' = sys"
    and "s' = say (Stderr (''del: mkstemp: '' @ path @ failed_template oc)) s"
    by simp_all
  with None show ?thesis by (simp add: say_def)
next
  case (Some sfx)
  with assms(1) have ne: "sfx \<noteq> []" by auto
  show ?thesis
  proof (cases "steps_ok oc")
    case True
    note ps = persist_success [OF Some ne True assms(2)]
    obtain w ok where we: "write_entries (fprintf_fails oc) None (sorted_array oc) 0 = (w, ok)"
      by (cases "write_entries (fprintf_fails oc) None (sorted_array oc) 0")
    with True have "ok" by (simp add: steps_ok_def)
    with we write_entries_written [of "fprintf_fails oc" None "sorted_array oc" 0 w]
    have "fst (write_entries (fprintf_fails oc) None (sorted_array oc) 0)
            = remdups_adj (sorted_array oc)" by simp
    with ps Some True show ?thesis by auto
  next
    case False
    note pf = persist_failure [OF Some ne False assms(2)]
    from pf(1,2,4) Some False show ?thesis
      using pf(3) by auto
  qed
qed

text \<open>
  The first write fails: the result is 1, the destination still holds its earlier list,
  the temporary file is gone, and its name was reported. And \<^verbatim>\<open>mkstemp\<close> fails: the
  result is 1, the system is unchanged, and the message shows the buffer as the call left
  it.
\<close>

theorem persist_is_atomic_witness:
  "map_option fst (persist disk_full ''/home/u/.del'' old_list one_command) = Some 1
   \<and> files (fst (snd (the (persist disk_full ''/home/u/.del'' old_list one_command))))
         ''/home/u/.del'' = file_of [''old'']
   \<and> files (fst (snd (the (persist disk_full ''/home/u/.del'' old_list one_command))))
         ''/home/u/.dela1B2c3'' = Inl ENOENT
   \<and> printed (snd (snd (the (persist disk_full ''/home/u/.del'' old_list one_command))))
       = [Stderr ''del: /home/u/.dela1B2c3'']
   \<and> map_option fst (persist no_tempfile ''/home/u/.del'' old_list one_command) = Some 1
   \<and> fst (snd (the (persist no_tempfile ''/home/u/.del'' old_list one_command))) = old_list
   \<and> printed (snd (snd (the (persist no_tempfile ''/home/u/.del'' old_list one_command))))
       = [Stderr ''del: mkstemp: /home/u/.delXIFPTX'']"
proof -
  let ?none = "persist no_tempfile ''/home/u/.del'' old_list one_command"
  have nm: "mkstemp no_tempfile \<noteq> Some []" and nm': "mkstemp no_tempfile = None"
    and nt: "failed_template no_tempfile = ''XIFPTX''"
    by (simp_all add: no_tempfile_def all_ok_def)
  have nd: "?none \<noteq> None"
    by (simp only: persist_undefined) (simp add: PATH_MAX_def)
  then have nr: "?none = Some (fst (the ?none), fst (snd (the ?none)), snd (snd (the ?none)))"
    by simp
  from nd have nf: "map_option fst ?none = Some (fst (the ?none))" by (cases ?none) auto
  have p: "printed one_command = []" by (simp add: one_command_def initial_state_def)
  from persist_is_atomic [OF nm nr] nm' nt p
  have "fst (the ?none) = 1" and "fst (snd (the ?none)) = old_list"
    and "printed (snd (snd (the ?none))) = [Stderr ''del: mkstemp: /home/u/.delXIFPTX'']"
    by auto
  with nf have second: "map_option fst ?none = Some 1 \<and> fst (snd (the ?none)) = old_list
      \<and> printed (snd (snd (the ?none))) = [Stderr ''del: mkstemp: /home/u/.delXIFPTX'']"
    by simp
  let ?run = "persist disk_full ''/home/u/.del'' old_list one_command"
  have m: "mkstemp disk_full \<noteq> Some []" and m': "mkstemp disk_full = Some ''a1B2c3''"
    and u: "unlink_ok disk_full"
    by (simp_all add: disk_full_def all_ok_def)
  have d: "?run \<noteq> None"
    by (simp only: persist_undefined) (simp add: PATH_MAX_def)
  then have r: "?run = Some (fst (the ?run), fst (snd (the ?run)), snd (snd (the ?run)))"
    by simp
  have n: "\<not> steps_ok disk_full" by code_simp
  have rep: "step_report disk_full (''/home/u/.del'' @ ''a1B2c3'') ''/home/u/.del'' = []"
    by code_simp
  have o: "files old_list ''/home/u/.del'' = file_of [''old'']" by (simp add: old_list_def)
  from d have f: "map_option fst ?run = Some (fst (the ?run))" by (cases ?run) auto
  from persist_is_atomic [OF m r, of "''a1B2c3''"] m' u n rep o p
  have "fst (the ?run) = 1"
    and "files (fst (snd (the ?run))) ''/home/u/.del'' = file_of [''old'']"
    and "files (fst (snd (the ?run))) ''/home/u/.dela1B2c3'' = Inl ENOENT"
    and "printed (snd (snd (the ?run))) = [Stderr ''del: /home/u/.dela1B2c3'']"
    by auto
  with f second show ?thesis by simp
qed

text \<open>
  Claim C7 as the specification states it fails in two places. When \<^verbatim>\<open>unlink\<close> fails
  too, the write phase fails, the temporary file was created (no file of that name was
  there before), and it is still there afterwards. And the report does not always tell
  the step that failed: a failed \<^verbatim>\<open>fdopen\<close> and a failed write print the same single
  message, which names the temporary file and no step; a failed \<^verbatim>\<open>fflush\<close> and a failed
  \<^verbatim>\<open>fsync\<close> print the same two messages.
\<close>

theorem persist_is_atomic_counterexample:
  "mkstemp (disk_full\<lparr>unlink_ok := False\<rparr>) = Some ''a1B2c3''
   \<and> map_option fst (persist (disk_full\<lparr>unlink_ok := False\<rparr>) ''/home/u/.del'' old_list
                       one_command) = Some 1
   \<and> files old_list ''/home/u/.dela1B2c3'' = Inl ENOENT
   \<and> files (fst (snd (the (persist (disk_full\<lparr>unlink_ok := False\<rparr>) ''/home/u/.del''
                              old_list one_command)))) ''/home/u/.dela1B2c3'' = file_of []
   \<and> printed (snd (snd (the (persist ((all_ok [''foo''])\<lparr>fprintf_fails := Some 0\<rparr>)
                                   ''/home/u/.del'' old_list one_command))))
       = [Stderr ''del: /home/u/.dela1B2c3'']
   \<and> printed (snd (snd (the (persist ((all_ok [''foo''])\<lparr>fdopen_ok := False\<rparr>)
                                   ''/home/u/.del'' old_list one_command))))
       = [Stderr ''del: /home/u/.dela1B2c3'']
   \<and> printed (snd (snd (the (persist ((all_ok [''foo''])\<lparr>fflush_ok := False\<rparr>)
                                   ''/home/u/.del'' old_list one_command))))
       = [Stderr (''del: unable to flush changes to '' @ quoted ''/home/u/.dela1B2c3''),
          Stderr ''del: /home/u/.dela1B2c3'']
   \<and> printed (snd (snd (the (persist ((all_ok [''foo''])\<lparr>fsync_ok := False\<rparr>)
                                   ''/home/u/.del'' old_list one_command))))
       = [Stderr (''del: unable to flush changes to '' @ quoted ''/home/u/.dela1B2c3''),
          Stderr ''del: /home/u/.dela1B2c3'']"
  by code_simp

section \<open>An \<^verbatim>\<open>Exec\<close> line that names only \<^verbatim>\<open>env\<close>\<close>

text \<open>
  Claim C6 says that an \<^verbatim>\<open>Exec\<close> value whose first word has the base name \<^verbatim>\<open>env\<close> gives
  the first later word that is neither an assignment nor an option, and no command when
  there is no such word. The source clears \<^verbatim>\<open>command\<close> each time it skips a word, so a
  line whose later words are all skipped gives no command; but when no word at all follows
  \<^verbatim>\<open>env\<close> the inner loop never runs and \<^verbatim>\<open>command\<close> stays \<^verbatim>\<open>env\<close>. For the line
  \<^verbatim>\<open>Exec=env\<close>: the first \<^verbatim>\<open>sscanf\<close> stores \<^verbatim>\<open>env\<close> and the offset 9, the scan at that
  offset finds no word, the parser ends with the command \<^verbatim>\<open>env\<close>, and
  \<^verbatim>\<open>parse_desktop_entry\<close> adds \<^verbatim>\<open>env\<close> to the command list. The line
  \<^verbatim>\<open>Exec=env FOO=bar\<close> gives no command, and the line of the specification's example gives
  \<^verbatim>\<open>mycmd\<close>.
\<close>

theorem exec_env_alone:
  "sscanf_exec ''Exec=env\<newline>'' = Some (''env'', 9)
   \<and> sscanf_word (drop 9 ''Exec=env\<newline>'') = None
   \<and> command (scan_lines [''[Desktop Entry]\<newline>'', ''Exec=env\<newline>''] entry0) = ''env''
   \<and> commands (snd (parse_desktop_entry (desktop_os ''[Desktop Entry]\<newline>Exec=env\<newline>'')
                       ''/usr/share/applications/x.desktop'' initial_state)) = [''env'']
   \<and> command (scan_lines [''[Desktop Entry]\<newline>'', ''Exec=env FOO=bar\<newline>''] entry0) = []
   \<and> command (scan_lines [''[Desktop Entry]\<newline>'', ''Exec=env FOO=bar -x mycmd --flag\<newline>'']
                entry0) = ''mycmd''"
  by code_simp

end
